theory Spec2Isabelle
  imports
    Complex_Main
    "HOL-Library.AList"
    "HOL-Library.Char_ord"
    "HOL-Library.List_Lexorder"
    "HOL-Library.Product_Lexorder"
begin

section \<open>Budget assessment: a shallow embedding of \<^verbatim>\<open>budget_assessment.py\<close>\<close>

text \<open>
  Conventions of the embedding.
  \<^item> A Python \<^verbatim>\<open>float\<close> is the \<^typ>\<open>real\<close> it denotes; infinities and NaN are not
    modelled. In \<open>compute_suggested_budget\<close>, whose result depends on it, every float
    operation is rounded to binary64 by \<open>fl\<close>; the other float arithmetic is exact.
    Python's \<^verbatim>\<open>int\<close> is \<^typ>\<open>int\<close>, or \<^typ>\<open>nat\<close> for a counter that only counts up from
    zero.
  \<^item> A Python \<^verbatim>\<open>str\<close> is a \<^typ>\<open>string\<close>; its characters are code points below 256.
  \<^item> An exception is a value of \<open>exn\<close>; a function that can raise returns
    \<open>exn + 'a\<close>, with \<open>Inl\<close> for the exception.
  \<^item> The remote API is an explicit argument: the outcome of every request the code
    issues is read from it.
\<close>

subsection \<open>Exceptions and dynamically typed values\<close>

datatype exn =
    ReadTimeout
  | ConnectTimeout
  | ConnectionError
  | HTTPError int
  | ValueError
  | TypeError
  | IndexError
  | ZeroDivisionError
  | OverflowError

text \<open>
  A value decoded from JSON whose Python type the code does not fix. Python's \<^verbatim>\<open>int\<close>
  and \<^verbatim>\<open>float\<close> are both \<open>PNum\<close>.
\<close>

datatype pyval =
    PNone
  | PBool bool
  | PNum real
  | PStr string
  | PList "pyval list"
  | PDict "(string \<times> pyval) list"

text \<open>Truth value testing (\<^verbatim>\<open>if x\<close>, \<^verbatim>\<open>x or y\<close>, \<^verbatim>\<open>bool(x)\<close>).\<close>

fun truthy :: "pyval \<Rightarrow> bool" where
  "truthy PNone = False"
| "truthy (PBool b) = b"
| "truthy (PNum x) = (x \<noteq> 0)"
| "truthy (PStr s) = (s \<noteq> [])"
| "truthy (PList xs) = (xs \<noteq> [])"
| "truthy (PDict kvs) = (kvs \<noteq> [])"

text \<open>
  The builtin \<^verbatim>\<open>float(x)\<close>. What it does on a string is the parameter \<open>pf\<close>:
  \<open>pf s\<close> is \<open>Some r\<close> when \<^verbatim>\<open>float(s)\<close> is \<open>r\<close>, and \<open>None\<close> when it raises
  \<^verbatim>\<open>ValueError\<close>.
\<close>

fun py_float :: "(string \<Rightarrow> real option) \<Rightarrow> pyval \<Rightarrow> exn + real" where
  "py_float pf PNone = Inl TypeError"
| "py_float pf (PBool b) = Inr (if b then 1 else 0)"
| "py_float pf (PNum x) = Inr x"
| "py_float pf (PStr s) = (case pf s of None \<Rightarrow> Inl ValueError | Some r \<Rightarrow> Inr r)"
| "py_float pf (PList xs) = Inl TypeError"
| "py_float pf (PDict kvs) = Inl TypeError"

text \<open>\<^verbatim>\<open>x or d\<close>.\<close>

definition py_or :: "pyval \<Rightarrow> pyval \<Rightarrow> pyval" where
  "py_or x d = (if truthy x then x else d)"

text \<open>
  \<^verbatim>\<open>round(x, nd)\<close> on a float: the nearest multiple of \<open>10\<^sup>-\<^sup>n\<^sup>d\<close>, a tie going to the
  even neighbour. The argument is the real the float denotes and the result is that
  decimal itself, where Python returns the float nearest to it. On an \<^verbatim>\<open>int\<close> with
  \<open>nd \<ge> 0\<close> Python returns the \<^verbatim>\<open>int\<close> unchanged, and so does \<open>py_round\<close> on an integral real.
\<close>

definition round_half_even :: "real \<Rightarrow> int" where
  "round_half_even x =
     (let f = \<lfloor>x\<rfloor>; d = x - of_int f
      in if d < 1 / 2 then f
         else if 1 / 2 < d then f + 1
         else if even f then f else f + 1)"

definition py_round :: "real \<Rightarrow> nat \<Rightarrow> real" where
  "py_round x nd = of_int (round_half_even (x * 10 ^ nd)) / 10 ^ nd"

text \<open>
  Binary64 arithmetic. A finite \<^verbatim>\<open>float\<close> other than 0 is \<open>m * 2\<^sup>e\<close> with an integer \<open>m\<close> of
  at most 53 bits. \<open>binade x\<close> is the \<open>k\<close> with \<open>2\<^sup>k \<le> |x| < 2\<^sup>k\<^sup>+\<^sup>1\<close>, and \<open>fl x\<close> is the
  \<^verbatim>\<open>float\<close> an operation with the exact result \<open>x\<close> returns: the multiple of
  \<open>2\<^sup>k\<^sup>-\<^sup>5\<^sup>2\<close> nearest to \<open>x\<close>, a tie going to the even multiple; below \<open>2\<^sup>-\<^sup>1\<^sup>0\<^sup>2\<^sup>2\<close> the
  spacing stays \<open>2\<^sup>-\<^sup>1\<^sup>0\<^sup>7\<^sup>4\<close>. The exponent has no upper bound here: results beyond the
  largest \<^verbatim>\<open>float\<close>, where Python has \<^verbatim>\<open>inf\<close>, are outside the model. \<open>bit_length\<close> is
  \<^verbatim>\<open>int.bit_length\<close>.
\<close>

fun bit_length :: "nat \<Rightarrow> nat" where
  "bit_length n = (if n = 0 then 0 else Suc (bit_length (n div 2)))"

declare bit_length.simps [simp del]

definition pow2 :: "int \<Rightarrow> real" where
  "pow2 k = (if 0 \<le> k then 2 ^ nat k else 1 / 2 ^ nat (- k))"

definition binade :: "real \<Rightarrow> int" where
  "binade x =
     (if 1 \<le> \<bar>x\<bar> then int (bit_length (nat \<lfloor>\<bar>x\<bar>\<rfloor>)) - 1
      else - int (bit_length (nat (\<lceil>1 / \<bar>x\<bar>\<rceil> - 1))))"

definition fl :: "real \<Rightarrow> real" where
  "fl x =
     (if x = 0 then 0
      else let q = pow2 (max (binade x) (- 1022) - 52)
           in of_int (round_half_even (x / q)) * q)"

text \<open>
  The builtin \<^verbatim>\<open>sum\<close> on a list of floats, from the left. (From Python 3.12 on the
  builtin compensates the rounding errors; the result is the same for the lists of at most
  two numbers that the program passes.)
\<close>

definition fsum :: "real list \<Rightarrow> real" where
  "fsum xs = foldl (\<lambda>acc x. fl (acc + x)) 0 xs"

text \<open>
  \<^verbatim>\<open>str.lower()\<close>, \<^verbatim>\<open>str.startswith\<close>, \<^verbatim>\<open>str.endswith\<close>. Below 256 the upper-case letters
  are \<^verbatim>\<open>A\<close> to \<^verbatim>\<open>Z\<close> and the code points 192 to 222 but 215 (the multiplication sign);
  each has its lower-case letter 32 places further.
\<close>

definition lower_char :: "char \<Rightarrow> char" where
  "lower_char c =
     (if (CHR ''A'' \<le> c \<and> c \<le> CHR ''Z'')
         \<or> (192 \<le> (of_char c :: nat) \<and> (of_char c :: nat) \<le> 214)
         \<or> (216 \<le> (of_char c :: nat) \<and> (of_char c :: nat) \<le> 222)
      then char_of (of_char c + (32 :: nat)) else c)"

definition lower :: "string \<Rightarrow> string" where
  "lower s = map lower_char s"

definition startswith :: "string \<Rightarrow> string \<Rightarrow> bool" where
  "startswith s p = (take (length p) s = p)"

definition endswith :: "string \<Rightarrow> string \<Rightarrow> bool" where
  "endswith s p = (length p \<le> length s \<and> drop (length s - length p) s = p)"

text \<open>
  The builtin \<^verbatim>\<open>int(s)\<close> on a string, base 10: surrounding whitespace is stripped, one
  sign is allowed, and the digits may be separated by single underscores. \<open>None\<close> is
  \<^verbatim>\<open>ValueError\<close>. The whitespace \<^verbatim>\<open>int\<close> strips is tab, line feed, vertical tab, form
  feed, carriage return and space, and above 127 the next-line and no-break-space
  characters; the separators 28 to 31, which \<^verbatim>\<open>str.strip\<close> would remove, are not part of
  it. (The interpreter's limit on the length of a digit string is outside the model.)
\<close>

definition is_space :: "char \<Rightarrow> bool" where
  "is_space c = ((of_char c :: nat) \<in> {9, 10, 11, 12, 13, 32, 133, 160})"

definition strip :: "string \<Rightarrow> string" where
  "strip s = rev (dropWhile is_space (rev (dropWhile is_space s)))"

definition is_digit :: "char \<Rightarrow> bool" where
  "is_digit c = (CHR ''0'' \<le> c \<and> c \<le> CHR ''9'')"

definition digit_val :: "char \<Rightarrow> int" where
  "digit_val c = int (of_char c) - 48"

fun digits_value :: "int \<Rightarrow> string \<Rightarrow> int option" where
  "digits_value acc [] = Some acc"
| "digits_value acc [c] = (if is_digit c then Some (10 * acc + digit_val c) else None)"
| "digits_value acc (c # d # ds) =
     (if is_digit c then digits_value (10 * acc + digit_val c) (d # ds)
      else if c = CHR ''_'' \<and> is_digit d then digits_value (10 * acc + digit_val d) ds
      else None)"

definition py_int :: "string \<Rightarrow> int option" where
  "py_int s =
     (case strip s of
        [] \<Rightarrow> None
      | c # cs \<Rightarrow>
          (let body = (if c = CHR ''+'' \<or> c = CHR ''-'' then cs else c # cs)
           in case body of
                [] \<Rightarrow> None
              | d # ds \<Rightarrow>
                  if is_digit d
                  then map_option (\<lambda>v. if c = CHR ''-'' then - v else v) (digits_value 0 body)
                  else None))"

subsection \<open>Assessment arithmetic\<close>

text \<open>The literal \<^verbatim>\<open>0.10\<close> is the \<^verbatim>\<open>float\<close> nearest to one tenth.\<close>

definition BUDGET_HEADROOM_PCT :: real where
  "BUDGET_HEADROOM_PCT = fl 0.10"

definition BUDGET_ROUND_TO :: int where
  "BUDGET_ROUND_TO = 100"

definition budget_accuracy :: "real \<Rightarrow> real \<Rightarrow> real" where
  "budget_accuracy budget actual =
     (if budget \<le> 0 \<and> actual \<le> 0 then 1.0
      else if budget \<le> 0 \<or> actual \<le> 0 then 0.0
      else 1.0 - \<bar>budget - actual\<bar> / max budget actual)"

text \<open>
  Every operation on floats is one rounding: the sum of the list, its addition to
  \<^verbatim>\<open>value\<close>, the division by the \<^verbatim>\<open>int\<close> \<^verbatim>\<open>1 + len(...)\<close>, the addition
  \<^verbatim>\<open>1.0 + BUDGET_HEADROOM_PCT\<close>, the product, and the division by the \<^verbatim>\<open>int\<close>
  \<^verbatim>\<open>BUDGET_ROUND_TO\<close>. \<^verbatim>\<open>math.ceil\<close> returns an \<^verbatim>\<open>int\<close>, so after the rounding step
  \<^verbatim>\<open>suggestion\<close> is an \<^verbatim>\<open>int\<close>, the product of two of them, and the final
  \<^verbatim>\<open>round(suggestion, 2)\<close> acts on an integral value.
\<close>

definition compute_suggested_budget :: "real \<Rightarrow> real list \<Rightarrow> real" where
  "compute_suggested_budget v prev_two_months =
     (let baseline = max v (fl (fl (v + fsum prev_two_months)
                                 / (1 + real (length prev_two_months))));
          suggestion = fl (baseline * fl (1.0 + BUDGET_HEADROOM_PCT));
          suggestion = (if BUDGET_ROUND_TO > 0
                        then of_int (\<lceil>fl (suggestion / of_int BUDGET_ROUND_TO)\<rceil> * BUDGET_ROUND_TO)
                        else suggestion)
      in py_round suggestion 2)"

text \<open>
  Specification vocabulary: the suggested budget as the specification computes it, in
  exact arithmetic.
\<close>

definition spec_suggested_budget :: "real \<Rightarrow> real list \<Rightarrow> real" where
  "spec_suggested_budget v p =
     py_round (of_int (\<lceil>(max v ((v + sum_list p) / (1 + real (length p))) * 1.10) / 100\<rceil> * 100)) 2"

subsection \<open>The request client\<close>

text \<open>
  \<^verbatim>\<open>backoff_sleep\<close> returns nothing and sleeps; the model returns the number of seconds
  it sleeps. \<open>attempt\<close> is the retry counter of \<^verbatim>\<open>do_request\<close>, which counts up from 1.
\<close>

definition backoff_sleep :: "string option \<Rightarrow> nat \<Rightarrow> int" where
  "backoff_sleep retry_after_header attempt =
     (case retry_after_header of
        None \<Rightarrow> min (2 ^ attempt) 30
      | Some h \<Rightarrow>
          if h \<noteq> [] then
            (case py_int h of
               Some secs \<Rightarrow> max 1 (min secs 60)
             | None \<Rightarrow> min (2 ^ attempt) 30)
          else min (2 ^ attempt) 30)"

text \<open>
  A response as far as \<^verbatim>\<open>do_request\<close> reads it: the status code and the
  \<^verbatim>\<open>Retry-After\<close> header. One call of \<^verbatim>\<open>requests.request\<close> either raises or responds.
\<close>

record response =
  status_code :: int
  retry_after :: "string option"

datatype outcome = Raised exn | Responded response

text \<open>
  \<^verbatim>\<open>Response.raise_for_status\<close> of the \<^verbatim>\<open>requests\<close> library raises \<^verbatim>\<open>HTTPError\<close> for a
  status from 400 to 599 and returns otherwise.
\<close>

definition raise_for_status :: "response \<Rightarrow> exn + unit" where
  "raise_for_status resp =
     (if 400 \<le> status_code resp \<and> status_code resp < 600
      then Inl (HTTPError (status_code resp)) else Inr ())"

definition retryable :: "int set" where
  "retryable = {429, 500, 502, 503, 504}"

text \<open>
  The result of \<^verbatim>\<open>do_request\<close> with its effects: what it returns or raises, the number
  of requests it issued, and the seconds it slept before each retry.
\<close>

record request_run =
  result :: "exn + response"
  issued :: nat
  slept :: "int list"

text \<open>
  The loop of \<^verbatim>\<open>do_request\<close>. \<open>srv k\<close> is the outcome of the request issued after \<open>k\<close>
  earlier ones. Only \<^verbatim>\<open>ReadTimeout\<close> is caught; any other exception of the request
  leaves the function at once.
\<close>

function do_request_loop ::
  "(nat \<Rightarrow> outcome) \<Rightarrow> nat \<Rightarrow> nat \<Rightarrow> int list \<Rightarrow> request_run" where
  "do_request_loop srv attempt k sl =
     (case srv k of
        Raised e \<Rightarrow>
          if e = ReadTimeout then
            (if attempt + 1 > 6 then \<lparr>result = Inl e, issued = k + 1, slept = sl\<rparr>
             else do_request_loop srv (attempt + 1) (k + 1)
                    (sl @ [backoff_sleep None (attempt + 1)]))
          else \<lparr>result = Inl e, issued = k + 1, slept = sl\<rparr>
      | Responded resp \<Rightarrow>
          if status_code resp \<in> retryable then
            (case (if attempt + 1 > 6 then raise_for_status resp else Inr ()) of
               Inl e \<Rightarrow> \<lparr>result = Inl e, issued = k + 1, slept = sl\<rparr>
             | Inr u \<Rightarrow>
                 do_request_loop srv (attempt + 1) (k + 1)
                   (sl @ [backoff_sleep (retry_after resp) (attempt + 1)]))
          else
            (case raise_for_status resp of
               Inl e \<Rightarrow> \<lparr>result = Inl e, issued = k + 1, slept = sl\<rparr>
             | Inr u \<Rightarrow> \<lparr>result = Inr resp, issued = k + 1, slept = sl\<rparr>))"
  by pat_completeness auto
termination
proof (relation "measure (\<lambda>(srv, attempt, k, sl). 7 - attempt)")
  show "wf (measure (\<lambda>(srv, attempt, k, sl). 7 - attempt))"
    by simp
next
  fix srv :: "nat \<Rightarrow> outcome" and attempt k :: nat and sl :: "int list" and e
  assume "\<not> 6 < attempt + 1"
  then show "((srv, attempt + 1, k + 1, sl @ [backoff_sleep None (attempt + 1)]),
               (srv, attempt, k, sl)) \<in> measure (\<lambda>(srv, attempt, k, sl). 7 - attempt)"
    by simp
next
  fix srv :: "nat \<Rightarrow> outcome" and attempt k :: nat and sl :: "int list" and resp u
  assume "status_code resp \<in> retryable"
    and "(if 6 < attempt + 1 then raise_for_status resp else Inr ()) = Inr u"
  then show "((srv, attempt + 1, k + 1, sl @ [backoff_sleep (retry_after resp) (attempt + 1)]),
               (srv, attempt, k, sl)) \<in> measure (\<lambda>(srv, attempt, k, sl). 7 - attempt)"
    by (auto simp: retryable_def raise_for_status_def split: if_splits)
qed

declare do_request_loop.simps [simp del]

definition do_request :: "(nat \<Rightarrow> outcome) \<Rightarrow> request_run" where
  "do_request srv = do_request_loop srv 0 0 []"

text \<open>A server that answers every request with the same outcome.\<close>

definition always :: "outcome \<Rightarrow> nat \<Rightarrow> outcome" where
  "always out k = out"

subsection \<open>Calendar months\<close>

text \<open>
  A \<^verbatim>\<open>datetime.date\<close>: a day of the proleptic Gregorian calendar with a year from 1 to
  9999. \<open>valid_date\<close> is what the constructor accepts.
\<close>

record date =
  year :: int
  month :: int
  day :: int

definition is_leap :: "int \<Rightarrow> bool" where
  "is_leap y = (y mod 4 = 0 \<and> (y mod 100 \<noteq> 0 \<or> y mod 400 = 0))"

definition days_in_month :: "int \<Rightarrow> int \<Rightarrow> int" where
  "days_in_month y m =
     (if m = 2 then (if is_leap y then 29 else 28)
      else if m = 4 \<or> m = 6 \<or> m = 9 \<or> m = 11 then 30
      else 31)"

definition valid_date :: "date \<Rightarrow> bool" where
  "valid_date d =
     (1 \<le> year d \<and> year d \<le> 9999 \<and> 1 \<le> month d \<and> month d \<le> 12
      \<and> 1 \<le> day d \<and> day d \<le> days_in_month (year d) (month d))"

text \<open>\<^verbatim>\<open>d.replace(day=1)\<close>: every month has a first day, so it cannot raise.\<close>

definition first_of_month :: "date \<Rightarrow> date" where
  "first_of_month d = d\<lparr>day := 1\<rparr>"

text \<open>
  \<^verbatim>\<open>d + relativedelta(months=k)\<close> of \<^verbatim>\<open>dateutil\<close>, for \<open>k\<close> from \<open>-11\<close> to \<open>11\<close>
  (\<^verbatim>\<open>d - relativedelta(months=1)\<close> is \<open>k = -1\<close>): the month moves by \<open>k\<close>, the day is
  cut to the length of the new month, and building the date raises \<^verbatim>\<open>ValueError\<close>
  when the year leaves 1..9999.
\<close>

definition add_months :: "date \<Rightarrow> int \<Rightarrow> exn + date" where
  "add_months d k =
     (let m = month d + k;
          y = (if m > 12 then year d + 1 else if m < 1 then year d - 1 else year d);
          m = (if m > 12 then m - 12 else if m < 1 then m + 12 else m);
          dd = min (days_in_month y m) (day d)
      in if 1 \<le> y \<and> y \<le> 9999 then Inr \<lparr>year = y, month = m, day = dd\<rparr>
         else Inl ValueError)"

text \<open>
  \<^verbatim>\<open>d - timedelta(days=1)\<close> and \<^verbatim>\<open>d + timedelta(days=1)\<close>; leaving the range of
  \<^verbatim>\<open>date\<close> raises \<^verbatim>\<open>OverflowError\<close>.
\<close>

definition sub_day :: "date \<Rightarrow> exn + date" where
  "sub_day d =
     (if 1 < day d then Inr (d\<lparr>day := day d - 1\<rparr>)
      else if 1 < month d
        then Inr \<lparr>year = year d, month = month d - 1,
                 day = days_in_month (year d) (month d - 1)\<rparr>
      else if 1 < year d then Inr \<lparr>year = year d - 1, month = 12, day = 31\<rparr>
      else Inl OverflowError)"

definition add_day :: "date \<Rightarrow> exn + date" where
  "add_day d =
     (if day d < days_in_month (year d) (month d) then Inr (d\<lparr>day := day d + 1\<rparr>)
      else if month d < 12 then Inr \<lparr>year = year d, month = month d + 1, day = 1\<rparr>
      else if year d < 9999 then Inr \<lparr>year = year d + 1, month = 1, day = 1\<rparr>
      else Inl OverflowError)"

text \<open>
  The loop of \<^verbatim>\<open>first_last_day_of_last_n_months\<close>: \<open>j\<close> iterations are left. The
  cursor of the next iteration is computed at the end of each one, also of the last.
\<close>

fun month_windows_loop :: "nat \<Rightarrow> date \<Rightarrow> (date \<times> date) list \<Rightarrow> exn + (date \<times> date) list" where
  "month_windows_loop 0 month_cursor out = Inr out"
| "month_windows_loop (Suc j) month_cursor out =
     (let start = first_of_month month_cursor
      in case add_months start 1 of
           Inl e \<Rightarrow> Inl e
         | Inr next_first \<Rightarrow>
             (case sub_day next_first of
                Inl e \<Rightarrow> Inl e
              | Inr last_day \<Rightarrow>
                  (case add_months start (- 1) of
                     Inl e \<Rightarrow> Inl e
                   | Inr cursor' \<Rightarrow> month_windows_loop j cursor' (out @ [(start, last_day)]))))"

text \<open>
  \<^verbatim>\<open>date.today()\<close> is the argument \<open>today\<close>. \<^verbatim>\<open>range(n)\<close> is empty for \<open>n \<le> 0\<close>, so the
  loop runs \<open>nat n\<close> times.
\<close>

definition first_last_day_of_last_n_months :: "date \<Rightarrow> int \<Rightarrow> exn + (date \<times> date) list" where
  "first_last_day_of_last_n_months today n =
     (let first_this_month = first_of_month today
      in case add_months first_this_month (- 1) of
           Inl e \<Rightarrow> Inl e
         | Inr month_cursor \<Rightarrow> month_windows_loop (nat n) month_cursor [])"

text \<open>
  The \<^verbatim>\<open>timePeriod\<close> of the cost query for a window: from the start, at midnight, to
  the day after the end, at midnight.
\<close>

definition time_period :: "date \<times> date \<Rightarrow> exn + date \<times> date" where
  "time_period w =
     (case add_day (snd w) of Inl e \<Rightarrow> Inl e | Inr day_after \<Rightarrow> Inr (fst w, day_after))"

text \<open>
  Specification vocabulary, not code: the calendar month number \<open>k\<close>, counting from
  January of year 1 as month 0, and its window from the first to the last day.
\<close>

definition spec_month_window :: "int \<Rightarrow> date \<times> date" where
  "spec_month_window k =
     (\<lparr>year = k div 12 + 1, month = k mod 12 + 1, day = 1\<rparr>,
      \<lparr>year = k div 12 + 1, month = k mod 12 + 1,
       day = days_in_month (k div 12 + 1) (k mod 12 + 1)\<rparr>)"

definition spec_month_number :: "date \<Rightarrow> int" where
  "spec_month_number d = 12 * (year d - 1) + (month d - 1)"

subsection \<open>Budgets, notification conditions and report rows\<close>

text \<open>
  The payloads of the API are typed as the API documents them: names, dates and types are
  strings, lists of contacts are lists of strings. The two values the code converts with
  \<^verbatim>\<open>float\<close> and tests for truth, the budget's \<^verbatim>\<open>amount\<close> and a notification's
  \<^verbatim>\<open>threshold\<close>, are kept dynamically typed; \<open>PNone\<close> is an absent key or a JSON null.
  A key that is absent where the code gives a default is \<open>None\<close>.
\<close>

record notif_cfg =
  enabled :: "pyval option"
  thresholdType :: "string option"
  operator :: "string option"
  threshold :: pyval
  contactEmails :: "string list"
  contactGroups :: "string list"
  contactRoles :: "string list"

text \<open>
  \<open>notifications\<close> holds the items of the \<^verbatim>\<open>notifications\<close> mapping in order (empty when
  the key is absent); a value that is not a mapping is \<open>None\<close>.
\<close>

record budget =
  budget_name :: string
  amount :: pyval
  timeGrain :: string
  startDate :: string
  endDate :: string
  notifications :: "(string \<times> notif_cfg option) list"

text \<open>A flattened notification: the dictionary \<^verbatim>\<open>flatten_notifications\<close> builds.\<close>

record condition =
  ConditionKey :: string
  Enabled :: bool
  ThresholdType :: string
  Operator :: string
  ThresholdPercent :: pyval
  ContactEmails :: string
  ContactGroups :: string
  ContactRoles :: string

text \<open>
  A report row. Its eight condition columns are those of \<open>Condition\<close>, or empty strings
  when \<open>Condition\<close> is \<open>None\<close>; every other column is a field. An empty cell is the empty
  string, \<open>PStr []\<close> in a dynamically typed column.
\<close>

record row =
  ScopeType :: string
  ScopeId :: string
  SubscriptionName :: string
  SubscriptionId :: string
  ResourceGroup :: string
  BudgetName :: string
  BudgetAmount :: pyval
  BudgetTimeGrain :: string
  BudgetStartDate :: string
  BudgetEndDate :: string
  Condition :: "condition option"
  LastMonthCost :: pyval
  PrevMonthCost :: pyval
  Prev2MonthCost :: pyval
  PercentOfBudgetLastMonth :: pyval
  BudgetAccuracy :: pyval
  CurrentMonthForecastTotal :: pyval
  ForecastPercentOfBudget :: pyval
  ForecastConditionWillTrigger :: string
  SuggestedBudget_ActualBased :: pyval
  SuggestedBudget_ForecastBased :: pyval
  SuggestionNote :: string

text \<open>\<^verbatim>\<open>sep.join(xs)\<close>.\<close>

fun join :: "string \<Rightarrow> string list \<Rightarrow> string" where
  "join sep [] = []"
| "join sep [x] = x"
| "join sep (x # y # ys) = x @ sep @ join sep (y # ys)"

text \<open>\<^verbatim>\<open>x if x is not None else ""\<close>, and \<^verbatim>\<open>xs[i] if len(xs) > i else ""\<close>.\<close>

definition cell :: "real option \<Rightarrow> pyval" where
  "cell x = (case x of None \<Rightarrow> PStr [] | Some v \<Rightarrow> PNum v)"

definition cell_at :: "real list \<Rightarrow> nat \<Rightarrow> pyval" where
  "cell_at xs i = (if length xs > i then PNum (xs ! i) else PStr [])"

text \<open>Applying a function that may raise to each element in order; the first exception wins.\<close>

fun mapE :: "('a \<Rightarrow> exn + 'b) \<Rightarrow> 'a list \<Rightarrow> exn + 'b list" where
  "mapE f [] = Inr []"
| "mapE f (x # xs) =
     (case f x of
        Inl e \<Rightarrow> Inl e
      | Inr y \<Rightarrow> (case mapE f xs of Inl e \<Rightarrow> Inl e | Inr ys \<Rightarrow> Inr (y # ys)))"

text \<open>A loop whose body may raise, threading the state.\<close>

fun foldE :: "('s \<Rightarrow> 'a \<Rightarrow> exn + 's) \<Rightarrow> 's \<Rightarrow> 'a list \<Rightarrow> exn + 's" where
  "foldE f s [] = Inr s"
| "foldE f s (x # xs) = (case f s x of Inl e \<Rightarrow> Inl e | Inr s' \<Rightarrow> foldE f s' xs)"

text \<open>The dictionary \<^verbatim>\<open>flatten_notifications\<close> appends for one item; a non-mapping is skipped.\<close>

definition flatten_item :: "string \<times> notif_cfg option \<Rightarrow> condition list" where
  "flatten_item kv =
     (case snd kv of
        None \<Rightarrow> []
      | Some cfg \<Rightarrow>
          [\<lparr>ConditionKey = fst kv,
            Enabled = (case enabled cfg of None \<Rightarrow> True | Some v \<Rightarrow> truthy v),
            ThresholdType = (case thresholdType cfg of None \<Rightarrow> [] | Some t \<Rightarrow> t),
            Operator = (case operator cfg of None \<Rightarrow> [] | Some t \<Rightarrow> t),
            ThresholdPercent = threshold cfg,
            ContactEmails = join '';'' (contactEmails cfg),
            ContactGroups = join '';'' (contactGroups cfg),
            ContactRoles = join '';'' (contactRoles cfg)\<rparr>])"

text \<open>The sort key: \<^verbatim>\<open>(r["ThresholdType"], float(r["ThresholdPercent"] or 0))\<close>.\<close>

definition sort_key_of :: "(string \<Rightarrow> real option) \<Rightarrow> condition \<Rightarrow> exn + string \<times> real" where
  "sort_key_of pf r =
     (case py_float pf (py_or (ThresholdPercent r) (PNum 0)) of
        Inl e \<Rightarrow> Inl e
      | Inr x \<Rightarrow> Inr (ThresholdType r, x))"

text \<open>
  \<^verbatim>\<open>list.sort(key=...)\<close> computes the key of every element first, in order, and then
  sorts stably by the keys.
\<close>

definition flatten_notifications ::
  "(string \<Rightarrow> real option) \<Rightarrow> (string \<times> notif_cfg option) list \<Rightarrow> exn + condition list" where
  "flatten_notifications pf notifs =
     (let out = concat (map flatten_item notifs)
      in case mapE (sort_key_of pf) out of
           Inl e \<Rightarrow> Inl e
         | Inr keys \<Rightarrow> Inr (map snd (sort_key fst (zip keys out))))"

text \<open>
  The forecast-trigger block in the loop of \<^verbatim>\<open>emit_budget_rows\<close>: the value of
  \<^verbatim>\<open>will_trigger\<close> for one condition, given \<^verbatim>\<open>forecast_percent_of_budget\<close>.
\<close>

definition will_trigger :: "(string \<Rightarrow> real option) \<Rightarrow> condition option \<Rightarrow> pyval \<Rightarrow> string" where
  "will_trigger pf cond forecast_percent_of_budget =
     (case cond of
        None \<Rightarrow> []
      | Some c \<Rightarrow>
          if startswith (lower (ThresholdType c)) ''forecast'' then
            (if forecast_percent_of_budget \<noteq> PStr [] \<and> ThresholdPercent c \<noteq> PNone then
               (case py_float pf forecast_percent_of_budget of
                  Inl e \<Rightarrow> []
                | Inr f \<Rightarrow>
                    (case py_float pf (ThresholdPercent c) of
                       Inl e \<Rightarrow> []
                     | Inr t \<Rightarrow> if f \<ge> t then ''True'' else ''False''))
             else [])
          else [])"

text \<open>
  \<^verbatim>\<open>round((value / float(amount)) * 100, 2) if (value and amount) else ""\<close>, for the
  last month's cost and for the forecast total.
\<close>

definition percent_of_budget :: "(string \<Rightarrow> real option) \<Rightarrow> real option \<Rightarrow> pyval \<Rightarrow> exn + pyval" where
  "percent_of_budget pf v amt =
     (case v of
        None \<Rightarrow> Inr (PStr [])
      | Some x \<Rightarrow>
          if x \<noteq> 0 \<and> truthy amt then
            (case py_float pf amt of
               Inl e \<Rightarrow> Inl e
             | Inr a \<Rightarrow> if a = 0 then Inl ZeroDivisionError
                        else Inr (PNum (py_round ((x / a) * 100) 2)))
          else Inr (PStr []))"

text \<open>The rows of one budget: the arguments of \<^verbatim>\<open>emit_budget_rows\<close> but the row list.\<close>

record emit_args =
  scope_type :: string
  scope_id :: string
  sub_name :: string
  sub_id :: string
  the_budget :: budget
  last_val :: "real option"
  prev_two :: "real list"
  forecast_total :: "real option"
  resource_group :: string

text \<open>The dictionary of one row, from the values computed before and in the loop.\<close>

definition budget_row ::
  "emit_args \<Rightarrow> pyval \<Rightarrow> pyval \<Rightarrow> pyval \<Rightarrow> pyval \<Rightarrow> string \<Rightarrow> condition option \<Rightarrow> row" where
  "budget_row a acc percent_of_budget_last_month forecast_percent_of_budget budget_amount wt cond =
     \<lparr>ScopeType = scope_type a,
      ScopeId = scope_id a,
      SubscriptionName = sub_name a,
      SubscriptionId = sub_id a,
      ResourceGroup = resource_group a,
      BudgetName = budget_name (the_budget a),
      BudgetAmount = budget_amount,
      BudgetTimeGrain = timeGrain (the_budget a),
      BudgetStartDate = startDate (the_budget a),
      BudgetEndDate = endDate (the_budget a),
      Condition = cond,
      LastMonthCost = cell (last_val a),
      PrevMonthCost = cell_at (prev_two a) 0,
      Prev2MonthCost = cell_at (prev_two a) 1,
      PercentOfBudgetLastMonth = percent_of_budget_last_month,
      BudgetAccuracy = acc,
      CurrentMonthForecastTotal = cell (forecast_total a),
      ForecastPercentOfBudget = forecast_percent_of_budget,
      ForecastConditionWillTrigger = wt,
      SuggestedBudget_ActualBased =
        (case last_val a of
           None \<Rightarrow> PStr []
         | Some v \<Rightarrow> PNum (compute_suggested_budget v (prev_two a))),
      SuggestedBudget_ForecastBased =
        (case forecast_total a of
           None \<Rightarrow> PStr []
         | Some v \<Rightarrow> PNum (compute_suggested_budget v (prev_two a))),
      SuggestionNote =
        ''Suggestions = max(value, 3-mo avg) + 10 percent headroom, rounded.''\<rparr>"

text \<open>\<^verbatim>\<open>round(float(amount), 2) if amount is not None else ""\<close>.\<close>

definition budget_amount_cell :: "(string \<Rightarrow> real option) \<Rightarrow> pyval \<Rightarrow> exn + pyval" where
  "budget_amount_cell pf amt =
     (if amt \<noteq> PNone
      then (case py_float pf amt of Inl e \<Rightarrow> Inl e | Inr x \<Rightarrow> Inr (PNum (py_round x 2)))
      else Inr (PStr []))"

text \<open>
  \<^verbatim>\<open>round(budget_accuracy(float(amount), float(last_val)), 4)
  if (last_val is not None and amount) else ""\<close>.
\<close>

definition accuracy_cell :: "(string \<Rightarrow> real option) \<Rightarrow> real option \<Rightarrow> pyval \<Rightarrow> exn + pyval" where
  "accuracy_cell pf lv amt =
     (case lv of
        None \<Rightarrow> Inr (PStr [])
      | Some v \<Rightarrow>
          if truthy amt then
            (case py_float pf amt of
               Inl e \<Rightarrow> Inl e
             | Inr b \<Rightarrow> Inr (PNum (py_round (budget_accuracy b v) 4)))
          else Inr (PStr []))"

text \<open>
  The body of the loop over the conditions: \<^verbatim>\<open>will_trigger\<close> is computed, then the row
  is built and appended.
\<close>

definition emit_row ::
  "(string \<Rightarrow> real option) \<Rightarrow> emit_args \<Rightarrow> pyval \<Rightarrow> pyval \<Rightarrow> pyval \<Rightarrow>
     row list \<Rightarrow> condition option \<Rightarrow> exn + row list" where
  "emit_row pf a acc percent_of_budget_last_month forecast_percent_of_budget rows_list cond =
     (let wt = will_trigger pf cond forecast_percent_of_budget
      in case budget_amount_cell pf (amount (the_budget a)) of
           Inl e \<Rightarrow> Inl e
         | Inr budget_amount \<Rightarrow>
             Inr (rows_list @
                  [budget_row a acc percent_of_budget_last_month forecast_percent_of_budget
                     budget_amount wt cond]))"

text \<open>
  \<^verbatim>\<open>emit_budget_rows\<close> appends to the list it is given; the model returns the extended
  list, or the exception that left the function.
\<close>

definition emit_budget_rows ::
  "(string \<Rightarrow> real option) \<Rightarrow> row list \<Rightarrow> emit_args \<Rightarrow> exn + row list" where
  "emit_budget_rows pf rows_list a =
     (case flatten_notifications pf (notifications (the_budget a)) of
        Inl e \<Rightarrow> Inl e
      | Inr flat \<Rightarrow>
          (let conditions = (if flat = [] then [None] else map Some flat)
           in case accuracy_cell pf (last_val a) (amount (the_budget a)) of
                Inl e \<Rightarrow> Inl e
              | Inr acc \<Rightarrow>
                  (case percent_of_budget pf (last_val a) (amount (the_budget a)) of
                     Inl e \<Rightarrow> Inl e
                   | Inr percent_of_budget_last_month \<Rightarrow>
                       (case percent_of_budget pf (forecast_total a) (amount (the_budget a)) of
                          Inl e \<Rightarrow> Inl e
                        | Inr forecast_percent_of_budget \<Rightarrow>
                            foldE (emit_row pf a acc percent_of_budget_last_month
                                     forecast_percent_of_budget)
                              rows_list conditions))))"

subsection \<open>The remote API\<close>

text \<open>
  A paginated listing as the \<^verbatim>\<open>while True\<close> loops read it: each page is one
  \<^verbatim>\<open>do_request\<close> followed by \<^verbatim>\<open>resp.json()\<close>, which either raises or gives the items
  under \<^verbatim>\<open>value\<close> and, when there is a \<^verbatim>\<open>nextLink\<close>, the page it leads to. The chain
  of pages is finite.
\<close>

datatype 'a paged =
    PageFail exn
  | LastPage "'a list"
  | NextPage "'a list" "'a paged"

text \<open>
  An item of the descendants listing: its \<^verbatim>\<open>type\<close> and \<^verbatim>\<open>name\<close> (empty when absent or
  null) and the \<^verbatim>\<open>displayName\<close> and \<^verbatim>\<open>tenantId\<close> of its properties.
\<close>

record item =
  item_type :: string
  item_name :: string
  item_displayName :: string
  item_tenantId :: string

record mg =
  managementGroupId :: string
  mg_displayName :: string

record sub =
  subscriptionId :: string
  displayName :: string
  tenantId :: string

text \<open>
  What the run reads from the outside: the pages of the two listings, and the outcome of
  \<^verbatim>\<open>list_budgets_at_scope\<close>, of the cost query of one month (the \<^verbatim>\<open>rows\<close> of its
  payload) and of \<^verbatim>\<open>cost_forecast_current_month_scope\<close> at a scope.
\<close>

record env =
  descendants :: "string \<Rightarrow> item paged"
  resource_groups :: "string \<Rightarrow> string paged"
  budgets :: "string \<Rightarrow> exn + budget list"
  cost_rows :: "string \<Rightarrow> date \<times> date \<Rightarrow> exn + pyval list list"
  forecast :: "string \<Rightarrow> exn + real"

subsection \<open>Discovery\<close>

text \<open>
  The body of the loop over the items of a page. The two dictionaries keep the order of
  first insertion, as \<open>AList.update\<close> does.
\<close>

definition classify ::
  "item \<Rightarrow> (string \<times> mg) list \<times> (string \<times> sub) list \<Rightarrow>
     (string \<times> mg) list \<times> (string \<times> sub) list" where
  "classify it acc =
     (let t = lower (item_type it); name = item_name it
      in if endswith t ''/subscriptions'' then
           (if name \<noteq> [] then
              (fst acc,
               AList.update name
                 \<lparr>subscriptionId = name, displayName = item_displayName it,
                  tenantId = item_tenantId it\<rparr> (snd acc))
            else acc)
         else if endswith t ''/managementgroups'' then
           (if name \<noteq> [] then
              (AList.update name
                 \<lparr>managementGroupId = name, mg_displayName = item_displayName it\<rparr> (fst acc),
               snd acc)
            else acc)
         else acc)"

fun descendants_pages ::
  "item paged \<Rightarrow> (string \<times> mg) list \<times> (string \<times> sub) list \<Rightarrow>
     exn + (string \<times> mg) list \<times> (string \<times> sub) list" where
  "descendants_pages (PageFail e) acc = Inl e"
| "descendants_pages (LastPage items) acc = Inr (fold classify items acc)"
| "descendants_pages (NextPage items rest) acc = descendants_pages rest (fold classify items acc)"

definition list_mgs_and_subs_under_mg :: "env \<Rightarrow> string \<Rightarrow> exn + mg list \<times> sub list" where
  "list_mgs_and_subs_under_mg e mg_id =
     (case descendants_pages (descendants e mg_id) ([], []) of
        Inl x \<Rightarrow> Inl x
      | Inr (mgs, subs) \<Rightarrow>
          (let mgs = (if mg_id \<notin> fst ` set mgs
                      then AList.update mg_id
                             \<lparr>managementGroupId = mg_id, mg_displayName = mg_id\<rparr> mgs
                      else mgs)
           in Inr (map snd mgs, map snd subs)))"

text \<open>The names of a page of resource groups are those that are not empty.\<close>

fun resource_group_pages :: "string paged \<Rightarrow> string list \<Rightarrow> exn + string list" where
  "resource_group_pages (PageFail e) rgs = Inl e"
| "resource_group_pages (LastPage names) rgs = Inr (rgs @ filter (\<lambda>n. n \<noteq> []) names)"
| "resource_group_pages (NextPage names rest) rgs =
     resource_group_pages rest (rgs @ filter (\<lambda>n. n \<noteq> []) names)"

definition list_resource_groups :: "env \<Rightarrow> string \<Rightarrow> exn + string list" where
  "list_resource_groups e sid = resource_group_pages (resource_groups e sid) []"

definition list_budgets_at_scope :: "env \<Rightarrow> string \<Rightarrow> exn + budget list" where
  "list_budgets_at_scope e scope = budgets e scope"

subsection \<open>Cost and forecast\<close>

text \<open>
  The sum over the rows of one month: \<^verbatim>\<open>row[0]\<close> of an empty row raises
  \<^verbatim>\<open>IndexError\<close>, which is not caught; a \<^verbatim>\<open>ValueError\<close> or \<^verbatim>\<open>TypeError\<close> of \<^verbatim>\<open>float\<close>
  is caught and the row adds nothing.
\<close>

definition add_cost_row :: "(string \<Rightarrow> real option) \<Rightarrow> real \<Rightarrow> pyval list \<Rightarrow> exn + real" where
  "add_cost_row pf val r =
     (case r of
        [] \<Rightarrow> Inl IndexError
      | c # cs \<Rightarrow>
          (case py_float pf (py_or c (PNum 0)) of
             Inl e \<Rightarrow> Inr val
           | Inr x \<Rightarrow> Inr (val + x)))"

text \<open>The body of the loop over the periods: one query, one cost appended.\<close>

definition month_cost ::
  "(string \<Rightarrow> real option) \<Rightarrow> env \<Rightarrow> string \<Rightarrow> real list \<Rightarrow> date \<times> date \<Rightarrow> exn + real list" where
  "month_cost pf e scope costs period =
     (case time_period period of
        Inl x \<Rightarrow> Inl x
      | Inr tp \<Rightarrow>
          (case cost_rows e scope tp of
             Inl x \<Rightarrow> Inl x
           | Inr rows \<Rightarrow>
               (case foldE (add_cost_row pf) 0 rows of
                  Inl x \<Rightarrow> Inl x
                | Inr val \<Rightarrow> Inr (costs @ [py_round val 2]))))"

definition cost_query_last_months_scope ::
  "(string \<Rightarrow> real option) \<Rightarrow> env \<Rightarrow> date \<Rightarrow> string \<Rightarrow> int \<Rightarrow> exn + real list" where
  "cost_query_last_months_scope pf e today scope months =
     (case first_last_day_of_last_n_months today months of
        Inl x \<Rightarrow> Inl x
      | Inr periods \<Rightarrow> foldE (month_cost pf e scope) [] periods)"

definition cost_forecast_current_month_scope :: "env \<Rightarrow> string \<Rightarrow> exn + real" where
  "cost_forecast_current_month_scope e scope = forecast e scope"

subsection \<open>The run\<close>

text \<open>
  The arguments \<^verbatim>\<open>main\<close> works with after parsing: \<open>sub_filter\<close> and \<open>rg_filter\<close> hold
  lower-case names and are empty when the option is not given.
\<close>

record args =
  management_group_id :: string
  months :: int
  include_scopes :: "string set"
  sub_filter :: "string set"
  rg_filter :: "string set"

record report =
  mg_rows :: "row list"
  sub_rows :: "row list"
  sub_nobudget_rows :: "row list"
  rg_rows :: "row list"

text \<open>
  The three \<^verbatim>\<open>try\<close> blocks every scope goes through in \<^verbatim>\<open>main\<close>: an exception of the
  budget listing gives no budgets, one of the cost query gives \<^verbatim>\<open>[None] * months\<close>, one of
  the forecast gives \<^verbatim>\<open>None\<close>.
\<close>

definition budgets_or_empty :: "env \<Rightarrow> string \<Rightarrow> budget list" where
  "budgets_or_empty e scope =
     (case list_budgets_at_scope e scope of Inl x \<Rightarrow> [] | Inr bs \<Rightarrow> bs)"

definition monthly_or_none ::
  "(string \<Rightarrow> real option) \<Rightarrow> env \<Rightarrow> date \<Rightarrow> string \<Rightarrow> int \<Rightarrow> real option list" where
  "monthly_or_none pf e today scope n =
     (case cost_query_last_months_scope pf e today scope n of
        Inl x \<Rightarrow> replicate (nat n) None
      | Inr costs \<Rightarrow> map Some costs)"

definition forecast_or_none :: "env \<Rightarrow> string \<Rightarrow> real option" where
  "forecast_or_none e scope =
     (case cost_forecast_current_month_scope e scope of Inl x \<Rightarrow> None | Inr v \<Rightarrow> Some v)"

text \<open>
  \<^verbatim>\<open>monthly[0] if monthly and monthly[0] is not None else None\<close>, and
  \<^verbatim>\<open>[c for c in monthly[1:3] if c is not None]\<close>.
\<close>

definition last_month :: "real option list \<Rightarrow> real option" where
  "last_month monthly = (case monthly of [] \<Rightarrow> None | c # cs \<Rightarrow> c)"

definition prev_two_months :: "real option list \<Rightarrow> real list" where
  "prev_two_months monthly = concat (map (\<lambda>c. case c of None \<Rightarrow> [] | Some v \<Rightarrow> [v]) (take 2 (drop 1 monthly)))"

text \<open>The rows of the budgets of one scope, appended by \<^verbatim>\<open>emit_budget_rows\<close> in turn.\<close>

definition emit_all ::
  "(string \<Rightarrow> real option) \<Rightarrow> row list \<Rightarrow> emit_args \<Rightarrow> budget list \<Rightarrow> exn + row list" where
  "emit_all pf rows_list a bs =
     foldE (\<lambda>rows b. emit_budget_rows pf rows (a\<lparr>the_budget := b\<rparr>)) rows_list bs"

definition scope_args ::
  "(string \<Rightarrow> real option) \<Rightarrow> env \<Rightarrow> date \<Rightarrow> int \<Rightarrow> string \<Rightarrow> string \<Rightarrow> string \<Rightarrow> string \<Rightarrow>
     string \<Rightarrow> emit_args" where
  "scope_args pf e today n stype scope sname sid rg =
     (let monthly = monthly_or_none pf e today scope n
      in \<lparr>scope_type = stype, scope_id = scope, sub_name = sname, sub_id = sid,
          the_budget = \<lparr>budget_name = [], amount = PNone, timeGrain = [], startDate = [],
                        endDate = [], notifications = []\<rparr>,
          last_val = last_month monthly, prev_two = prev_two_months monthly,
          forecast_total = forecast_or_none e scope, resource_group = rg\<rparr>)"

text \<open>The body of the loop over the management groups.\<close>

definition process_mg ::
  "(string \<Rightarrow> real option) \<Rightarrow> env \<Rightarrow> date \<Rightarrow> int \<Rightarrow> row list \<Rightarrow> mg \<Rightarrow> exn + row list" where
  "process_mg pf e today n rows g =
     (let mg_scope = ''/providers/Microsoft.Management/managementGroups/'' @ managementGroupId g;
          mg_budgets = budgets_or_empty e mg_scope
      in if mg_budgets = [] then Inr rows
         else emit_all pf rows (scope_args pf e today n ''MG'' mg_scope [] [] []) mg_budgets)"

text \<open>The synthetic row of a subscription without budgets.\<close>

definition nobudget_row :: "emit_args \<Rightarrow> row" where
  "nobudget_row a =
     \<lparr>ScopeType = ''Subscription'',
      ScopeId = scope_id a,
      SubscriptionName = sub_name a,
      SubscriptionId = sub_id a,
      ResourceGroup = [],
      BudgetName = [],
      BudgetAmount = PStr [],
      BudgetTimeGrain = [],
      BudgetStartDate = [],
      BudgetEndDate = [],
      Condition = None,
      LastMonthCost = cell (last_val a),
      PrevMonthCost = cell_at (prev_two a) 0,
      Prev2MonthCost = cell_at (prev_two a) 1,
      PercentOfBudgetLastMonth = PStr [],
      BudgetAccuracy = PStr [],
      CurrentMonthForecastTotal = cell (forecast_total a),
      ForecastPercentOfBudget = PStr [],
      ForecastConditionWillTrigger = [],
      SuggestedBudget_ActualBased =
        (case last_val a of
           None \<Rightarrow> PStr []
         | Some v \<Rightarrow> PNum (compute_suggested_budget v (prev_two a))),
      SuggestedBudget_ForecastBased =
        (case forecast_total a of
           None \<Rightarrow> PStr []
         | Some v \<Rightarrow> PNum (compute_suggested_budget v (prev_two a))),
      SuggestionNote =
        ''No budget configured at this scope. Suggestions = max(value, 3-mo avg) + 10 percent headroom, rounded.''\<rparr>"

text \<open>The subscription block of the loop over the subscriptions.\<close>

definition process_sub ::
  "(string \<Rightarrow> real option) \<Rightarrow> env \<Rightarrow> date \<Rightarrow> int \<Rightarrow> report \<Rightarrow> sub \<Rightarrow> exn + report" where
  "process_sub pf e today n rep s =
     (let sub_scope = ''/subscriptions/'' @ subscriptionId s;
          sub_budgets = budgets_or_empty e sub_scope;
          a = scope_args pf e today n ''Subscription'' sub_scope (displayName s)
                (subscriptionId s) []
      in if sub_budgets \<noteq> [] then
           (case emit_all pf (sub_rows rep) a sub_budgets of
              Inl x \<Rightarrow> Inl x
            | Inr rows \<Rightarrow> Inr (rep\<lparr>sub_rows := rows\<rparr>))
         else Inr (rep\<lparr>sub_nobudget_rows := sub_nobudget_rows rep @ [nobudget_row a]\<rparr>))"

text \<open>The body of the loop over the resource groups of a subscription.\<close>

definition process_rg ::
  "(string \<Rightarrow> real option) \<Rightarrow> env \<Rightarrow> date \<Rightarrow> int \<Rightarrow> sub \<Rightarrow> row list \<Rightarrow> string \<Rightarrow> exn + row list" where
  "process_rg pf e today n s rows rg =
     (let rg_scope = ''/subscriptions/'' @ subscriptionId s @ ''/resourceGroups/'' @ rg;
          rg_budgets = budgets_or_empty e rg_scope
      in if rg_budgets = [] then Inr rows
         else emit_all pf rows
                (scope_args pf e today n ''ResourceGroup'' rg_scope (displayName s)
                   (subscriptionId s) rg)
                rg_budgets)"

text \<open>
  The resource group block: an exception of the listing is caught and leaves no resource
  groups for this subscription.
\<close>

definition process_rgs ::
  "(string \<Rightarrow> real option) \<Rightarrow> env \<Rightarrow> date \<Rightarrow> args \<Rightarrow> report \<Rightarrow> sub \<Rightarrow> exn + report" where
  "process_rgs pf e today ar rep s =
     (let rgs = (case list_resource_groups e (subscriptionId s) of
                   Inl x \<Rightarrow> []
                 | Inr rgs \<Rightarrow>
                     if rg_filter ar \<noteq> {} then filter (\<lambda>rg. lower rg \<in> rg_filter ar) rgs
                     else rgs)
      in case foldE (process_rg pf e today (months ar) s) (rg_rows rep) rgs of
           Inl x \<Rightarrow> Inl x
         | Inr rows \<Rightarrow> Inr (rep\<lparr>rg_rows := rows\<rparr>))"

text \<open>The body of the loop over the subscriptions.\<close>

definition process_subscription ::
  "(string \<Rightarrow> real option) \<Rightarrow> env \<Rightarrow> date \<Rightarrow> args \<Rightarrow> report \<Rightarrow> sub \<Rightarrow> exn + report" where
  "process_subscription pf e today ar rep s =
     (case (if ''sub'' \<in> include_scopes ar then process_sub pf e today (months ar) rep s
            else Inr rep) of
        Inl x \<Rightarrow> Inl x
      | Inr rep' \<Rightarrow>
          if ''rg'' \<in> include_scopes ar then process_rgs pf e today ar rep' s else Inr rep')"

text \<open>
  \<^verbatim>\<open>main\<close>, from the discovery to the four row lists the workbook is written from.
  \<open>Inl\<close> is an exception that leaves \<^verbatim>\<open>main\<close>: the process ends with a traceback and a
  non-zero exit status, and no workbook is written.
\<close>

definition main :: "(string \<Rightarrow> real option) \<Rightarrow> env \<Rightarrow> date \<Rightarrow> args \<Rightarrow> exn + report" where
  "main pf e today ar =
     (case (if ''mg'' \<in> include_scopes ar \<or> ''sub'' \<in> include_scopes ar
               \<or> ''rg'' \<in> include_scopes ar
            then list_mgs_and_subs_under_mg e (management_group_id ar)
            else Inr ([], [])) of
        Inl x \<Rightarrow> Inl x
      | Inr (mgs, subs) \<Rightarrow>
          (let subs = (if sub_filter ar \<noteq> {}
                       then filter (\<lambda>s. lower (subscriptionId s) \<in> sub_filter ar) subs
                       else subs)
           in case (if ''mg'' \<in> include_scopes ar
                    then foldE (process_mg pf e today (months ar)) [] mgs
                    else Inr []) of
                Inl x \<Rightarrow> Inl x
              | Inr mrows \<Rightarrow>
                  foldE (process_subscription pf e today ar)
                    \<lparr>mg_rows = mrows, sub_rows = [], sub_nobudget_rows = [], rg_rows = []\<rparr>
                    subs))"

subsection \<open>Scenarios\<close>

text \<open>
  Concrete inputs for the examples below: a \<^verbatim>\<open>float\<close> that reads no string, a day, and
  remote APIs that answer as described.
\<close>

definition no_float :: "string \<Rightarrow> real option" where
  "no_float s = None"

definition day_2024_06_15 :: date where
  "day_2024_06_15 = \<lparr>year = 2024, month = 6, day = 15\<rparr>"

text \<open>
  One subscription \<open>s1\<close> without budgets; every cost query answers one row of 100, but
  the one for April 2024, which fails with status 404; the forecast is 50.
\<close>

definition april_fails :: env where
  "april_fails =
     \<lparr>descendants = (\<lambda>g. LastPage
         [\<lparr>item_type = ''/subscriptions'', item_name = ''s1'', item_displayName = ''One'',
           item_tenantId = ''t''\<rparr>]),
      resource_groups = (\<lambda>s. LastPage []),
      budgets = (\<lambda>scope. Inr []),
      cost_rows = (\<lambda>scope tp.
         if fst tp = \<lparr>year = 2024, month = 4, day = 1\<rparr> then Inl (HTTPError 404)
         else Inr [[PNum 100]]),
      forecast = (\<lambda>scope. Inr 50)\<rparr>"

text \<open>The same, with a resource group listing that fails with status 403.\<close>

definition rg_listing_fails :: env where
  "rg_listing_fails = april_fails\<lparr>resource_groups := (\<lambda>s. PageFail (HTTPError 403))\<rparr>"

text \<open>Specification vocabulary: the exception a chain of pages ends with, if any.\<close>

fun page_failure :: "'a paged \<Rightarrow> exn option" where
  "page_failure (PageFail e) = Some e"
| "page_failure (LastPage xs) = None"
| "page_failure (NextPage xs rest) = page_failure rest"

text \<open>
  Specification vocabulary: a row is budget-bearing when it carries the name of a budget
  listed at its scope, and synthetic when it is the row of a subscription at which no
  budget is listed.
\<close>

definition budget_bearing :: "env \<Rightarrow> row \<Rightarrow> bool" where
  "budget_bearing e r = (\<exists>b \<in> set (budgets_or_empty e (ScopeId r)). BudgetName r = budget_name b)"

definition synthetic :: "env \<Rightarrow> row \<Rightarrow> bool" where
  "synthetic e r =
     (budgets_or_empty e (ScopeId r) = [] \<and> ScopeType r = ''Subscription''
      \<and> BudgetName r = [] \<and> BudgetAmount r = PStr [] \<and> Condition r = None)"

text \<open>
  Specification vocabulary: a value typed as the data model types an amount or a
  threshold percent (a number, or absent), and a budget whose amount and thresholds are.
\<close>

definition typed_value :: "pyval \<Rightarrow> bool" where
  "typed_value v = (case v of PNone \<Rightarrow> True | PNum x \<Rightarrow> True | _ \<Rightarrow> False)"

definition typed_budget :: "budget \<Rightarrow> bool" where
  "typed_budget b =
     (typed_value (amount b)
      \<and> list_all (\<lambda>kv. case snd kv of None \<Rightarrow> True | Some cfg \<Rightarrow> typed_value (threshold cfg))
           (notifications b))"

text \<open>
  Specification vocabulary: every sheet of a report holds rows of its own tier and kind,
  and the synthetic rows so far belong to the subscriptions processed so far, one each at
  most.
\<close>

definition tiers_ok :: "env \<Rightarrow> report \<Rightarrow> bool" where
  "tiers_ok e rep =
     ((\<forall>r \<in> set (mg_rows rep). ScopeType r = ''MG'' \<and> budget_bearing e r)
      \<and> (\<forall>r \<in> set (sub_rows rep). ScopeType r = ''Subscription'' \<and> budget_bearing e r)
      \<and> (\<forall>r \<in> set (rg_rows rep). ScopeType r = ''ResourceGroup'' \<and> budget_bearing e r)
      \<and> (\<forall>r \<in> set (sub_nobudget_rows rep). synthetic e r))"

definition one_each :: "sub list \<Rightarrow> report \<Rightarrow> bool" where
  "one_each pre rep =
     (ScopeId ` set (sub_nobudget_rows rep) \<subseteq> (\<lambda>s. ''/subscriptions/'' @ subscriptionId s) ` set pre
      \<and> distinct (map ScopeId (sub_nobudget_rows rep)))"

text \<open>
  Specification vocabulary: the number of rows a budget is due, one for each of its
  notifications that is a mapping and one at least; the tier, scope and budget name of a
  row; and the rows a scope is due, as such triples: those of the budgets listed at it, in
  the order of the listing.
\<close>

definition rows_per_budget :: "budget \<Rightarrow> nat" where
  "rows_per_budget b = max 1 (length (filter (\<lambda>kv. snd kv \<noteq> None) (notifications b)))"

definition row_key :: "row \<Rightarrow> string \<times> string \<times> string" where
  "row_key r = (ScopeType r, ScopeId r, BudgetName r)"

definition scope_keys :: "env \<Rightarrow> string \<Rightarrow> string \<Rightarrow> (string \<times> string \<times> string) list" where
  "scope_keys e stype scope =
     concat (map (\<lambda>b. replicate (rows_per_budget b) (stype, scope, budget_name b))
               (budgets_or_empty e scope))"

text \<open>
  Specification vocabulary: the scope of a management group, of a subscription and of a
  resource group; what the discovery gives a run (nothing when no tier is asked for); the
  subscriptions and the resource groups left by the filters of the arguments, a failed
  resource group listing leaving none.
\<close>

definition mg_scope :: "mg \<Rightarrow> string" where
  "mg_scope g = ''/providers/Microsoft.Management/managementGroups/'' @ managementGroupId g"

definition sub_scope :: "sub \<Rightarrow> string" where
  "sub_scope s = ''/subscriptions/'' @ subscriptionId s"

definition rg_scope :: "sub \<Rightarrow> string \<Rightarrow> string" where
  "rg_scope s rg = ''/subscriptions/'' @ subscriptionId s @ ''/resourceGroups/'' @ rg"

definition discovered :: "env \<Rightarrow> args \<Rightarrow> exn + mg list \<times> sub list" where
  "discovered e ar =
     (if ''mg'' \<in> include_scopes ar \<or> ''sub'' \<in> include_scopes ar \<or> ''rg'' \<in> include_scopes ar
      then list_mgs_and_subs_under_mg e (management_group_id ar)
      else Inr ([], []))"

definition selected_subs :: "args \<Rightarrow> sub list \<Rightarrow> sub list" where
  "selected_subs ar subs =
     (if sub_filter ar \<noteq> {} then filter (\<lambda>s. lower (subscriptionId s) \<in> sub_filter ar) subs
      else subs)"

definition listed_rgs :: "env \<Rightarrow> args \<Rightarrow> sub \<Rightarrow> string list" where
  "listed_rgs e ar s =
     (case list_resource_groups e (subscriptionId s) of
        Inl x \<Rightarrow> []
      | Inr rgs \<Rightarrow>
          if rg_filter ar \<noteq> {} then filter (\<lambda>rg. lower rg \<in> rg_filter ar) rgs else rgs)"

text \<open>More scenarios: arguments of a run, a budget with one forecast notification at 90
  percent, and the arguments of \<^verbatim>\<open>emit_budget_rows\<close> for it with a forecast total of 952.\<close>

definition args_rg :: args where
  "args_rg = \<lparr>management_group_id = ''root'', months = 3, include_scopes = {''rg''},
              sub_filter = {}, rg_filter = {}\<rparr>"

definition args_sub :: args where
  "args_sub = \<lparr>management_group_id = ''root'', months = 3, include_scopes = {''sub''},
              sub_filter = {}, rg_filter = {}\<rparr>"

definition forecast_budget :: budget where
  "forecast_budget =
     \<lparr>budget_name = ''b1'', amount = PNum 1000, timeGrain = ''Monthly'',
      startDate = ''2024-01-01'', endDate = [],
      notifications =
        [(''n1'', Some \<lparr>enabled = None, thresholdType = Some ''Forecasted'',
                        operator = Some ''GreaterThan'', threshold = PNum 90,
                        contactEmails = [''a@example.org''], contactGroups = [],
                        contactRoles = []\<rparr>)]\<rparr>"

definition forecast_args :: emit_args where
  "forecast_args =
     \<lparr>scope_type = ''Subscription'', scope_id = ''/subscriptions/s1'', sub_name = ''One'',
      sub_id = ''s1'', the_budget = forecast_budget, last_val = Some 800,
      prev_two = [700, 600], forecast_total = Some 952, resource_group = []\<rparr>"

text \<open>A remote API whose descendants listing fails on its second page with status 500.\<close>

definition discovery_fails :: env where
  "discovery_fails = april_fails\<lparr>descendants := (\<lambda>g. NextPage [] (PageFail (HTTPError 500)))\<rparr>"

text \<open>
  A hierarchy with budgets: under the management group \<open>root\<close>, which has a budget
  without notifications, the subscription \<open>s1\<close> has the budget \<open>b1\<close> above and a budget
  \<open>b2\<close> with two notifications that are mappings and one that is not, and the
  subscription \<open>s2\<close> has none; of the resource groups \<open>rg1\<close> and \<open>rg2\<close> of \<open>s1\<close> the second
  has the budget \<open>b2\<close>. Costs and forecast are those of \<open>april_fails\<close>.
\<close>

definition no_conditions :: budget where
  "no_conditions = forecast_budget\<lparr>budget_name := ''b0'', notifications := []\<rparr>"

definition two_conditions :: budget where
  "two_conditions =
     forecast_budget\<lparr>budget_name := ''b2'',
       notifications := notifications forecast_budget @ [(''note'', None)]
                        @ map (\<lambda>kv. (''n2'', snd kv)) (notifications forecast_budget)\<rparr>"

definition budgeted :: env where
  "budgeted =
     april_fails
       \<lparr>descendants := (\<lambda>g. LastPage
          [\<lparr>item_type = ''/subscriptions'', item_name = ''s1'', item_displayName = ''One'',
            item_tenantId = ''t''\<rparr>,
           \<lparr>item_type = ''/subscriptions'', item_name = ''s2'', item_displayName = ''Two'',
            item_tenantId = ''t''\<rparr>]),
        resource_groups := (\<lambda>sid. if sid = ''s1'' then LastPage [''rg1'', ''rg2''] else LastPage []),
        budgets := (\<lambda>scope.
          if scope = ''/providers/Microsoft.Management/managementGroups/root''
          then Inr [no_conditions]
          else if scope = ''/subscriptions/s1'' then Inr [forecast_budget, two_conditions]
          else if scope = ''/subscriptions/s1/resourceGroups/rg2'' then Inr [two_conditions]
          else Inr [])\<rparr>"

definition args_all :: args where
  "args_all = \<lparr>management_group_id = ''root'', months = 3,
               include_scopes = {''mg'', ''sub'', ''rg''}, sub_filter = {}, rg_filter = {}\<rparr>"

section \<open>Properties\<close>

subsection \<open>Assessment arithmetic\<close>

lemma py_round_of_int: "py_round (of_int k) 2 = of_int k"
  by (simp add: py_round_def round_half_even_def Let_def)

lemma budget_accuracy_range: "0 \<le> budget_accuracy b a \<and> budget_accuracy b a \<le> 1"
proof (cases "b \<le> 0 \<or> a \<le> 0")
  case True
  then show ?thesis by (auto simp: budget_accuracy_def)
next
  case False
  then have pos: "0 < b" "0 < a" by auto
  then have m: "0 < max b a" by simp
  have "\<bar>b - a\<bar> \<le> max b a" using pos by (auto simp: max_def abs_if)
  then have "\<bar>b - a\<bar> / max b a \<le> 1" using m by simp
  moreover have "0 \<le> \<bar>b - a\<bar> / max b a" using m by simp
  ultimately show ?thesis using False by (simp add: budget_accuracy_def)
qed

text \<open>
  C6. \<open>budget_accuracy\<close> is 1 when both arguments are at most 0, is 0 when exactly one of
  them is, and is \<open>1 - |budget - actual| / max budget actual\<close> otherwise. The result lies
  in \<open>[0, 1]\<close>; equal arguments give 1 (in particular equal positive ones), and
  \<open>(100, 150)\<close> gives \<open>1 - 50/150\<close>.
\<close>

theorem budget_accuracy_spec:
  "budget_accuracy b a =
     (if b \<le> 0 \<and> a \<le> 0 then 1
      else if (b \<le> 0 \<and> 0 < a) \<or> (0 < b \<and> a \<le> 0) then 0
      else 1 - \<bar>b - a\<bar> / max b a)
   \<and> 0 \<le> budget_accuracy b a \<and> budget_accuracy b a \<le> 1
   \<and> budget_accuracy b b = 1
   \<and> budget_accuracy 100 150 = 1 - 50 / 150"
proof -
  have "budget_accuracy b a =
     (if b \<le> 0 \<and> a \<le> 0 then 1
      else if (b \<le> 0 \<and> 0 < a) \<or> (0 < b \<and> a \<le> 0) then 0
      else 1 - \<bar>b - a\<bar> / max b a)"
    by (auto simp: budget_accuracy_def)
  moreover have "budget_accuracy b b = 1"
    by (simp add: budget_accuracy_def)
  moreover have "budget_accuracy 100 150 = 1 - 50 / 150"
    by (simp add: budget_accuracy_def)
  ultimately show ?thesis
    using budget_accuracy_range [of b a] by simp
qed

subsection \<open>Binary64 rounding\<close>

text \<open>
  \<open>binade\<close> does find the power of two at or below \<open>|x|\<close>, and \<open>fl x\<close> is within half a
  spacing of \<open>x\<close>.
\<close>

lemma bit_length_bounds:
  "0 < n \<Longrightarrow> 2 ^ (bit_length n - 1) \<le> n \<and> n < 2 ^ bit_length n"
proof (induction n rule: bit_length.induct)
  case (1 n)
  show ?case
  proof (cases "n div 2 = 0")
    case True
    with 1 have "n = 1" by (simp add: div_eq_0_iff)
    then show ?thesis by (simp add: bit_length.simps)
  next
    case False
    then have pos: "0 < n div 2" by simp
    from 1 have n0: "n \<noteq> 0" by simp
    from "1.IH" [OF n0 pos]
    have lo: "2 ^ (bit_length (n div 2) - 1) \<le> n div 2" and hi: "n div 2 < 2 ^ bit_length (n div 2)"
      by simp_all
    have bl: "bit_length n = Suc (bit_length (n div 2))"
      using n0 by (subst bit_length.simps) simp
    have b1: "bit_length (n div 2) \<noteq> 0"
      using pos by (subst bit_length.simps) simp
    then obtain k where k: "bit_length (n div 2) = Suc k" by (cases "bit_length (n div 2)") auto
    from lo k have "2 * 2 ^ k \<le> 2 * (n div 2)" by simp
    also have "\<dots> \<le> n" by simp
    finally have 1: "2 ^ (bit_length n - 1) \<le> n" by (simp add: bl k)
    from hi have "n div 2 + 1 \<le> 2 ^ bit_length (n div 2)" by simp
    then have "2 * (n div 2) + 2 \<le> 2 * 2 ^ bit_length (n div 2)" by simp
    moreover have "n \<le> 2 * (n div 2) + 1" by presburger
    ultimately have 2: "n < 2 ^ bit_length n" by (simp add: bl)
    from 1 2 show ?thesis by simp
  qed
qed

lemma binade_bounds:
  assumes "x \<noteq> 0"
  shows "pow2 (binade x) \<le> \<bar>x\<bar> \<and> \<bar>x\<bar> < pow2 (binade x + 1)"
proof (cases "1 \<le> \<bar>x\<bar>")
  case True
  define n where "n = nat \<lfloor>\<bar>x\<bar>\<rfloor>"
  from True have n: "0 < n" by (simp add: n_def)
  have b: "binade x = int (bit_length n) - 1"
    using True by (simp add: binade_def n_def)
  from bit_length_bounds [OF n] have lo: "2 ^ (bit_length n - 1) \<le> n" and hi: "n < 2 ^ bit_length n"
    by simp_all
  have bl: "0 < bit_length n" using n by (subst bit_length.simps) simp
  have nx: "real n \<le> \<bar>x\<bar>" "\<bar>x\<bar> < real n + 1"
    using True by (simp_all add: n_def)
  from lo have "real (2 ^ (bit_length n - 1)) \<le> real n"
    by (simp only: of_nat_le_iff)
  then have lr: "(2 :: real) ^ (bit_length n - 1) \<le> real n" by simp
  from hi have "n + 1 \<le> 2 ^ bit_length n" by simp
  then have "real (n + 1) \<le> real (2 ^ bit_length n)"
    by (simp only: of_nat_le_iff)
  then have hr: "real n + 1 \<le> 2 ^ bit_length n" by simp
  from lr nx have 1: "(2 :: real) ^ (bit_length n - 1) \<le> \<bar>x\<bar>" by linarith
  from hr nx have 2: "\<bar>x\<bar> < 2 ^ bit_length n" by linarith
  have "nat (int (bit_length n) - 1) = bit_length n - 1" by simp
  with 1 2 bl show ?thesis
    unfolding b pow2_def by simp
next
  case False
  with assms have x: "0 < \<bar>x\<bar>" "\<bar>x\<bar> < 1" by simp_all
  define y where "y = 1 / \<bar>x\<bar>"
  have y: "1 < y" using x by (simp add: y_def)
  define n where "n = nat (\<lceil>y\<rceil> - 1)"
  have c: "2 \<le> \<lceil>y\<rceil>" using y by linarith
  then have n: "0 < n" by (simp add: n_def)
  have ny: "real n < y" "y \<le> real n + 1"
    using c by (simp_all add: n_def) linarith+
  have b: "binade x = - int (bit_length n)"
    using False by (simp add: binade_def n_def y_def)
  from bit_length_bounds [OF n] have lo: "2 ^ (bit_length n - 1) \<le> n" and hi: "n < 2 ^ bit_length n"
    by simp_all
  have bl: "0 < bit_length n" using n by (subst bit_length.simps) simp
  from lo have "real (2 ^ (bit_length n - 1)) \<le> real n"
    by (simp only: of_nat_le_iff)
  then have lr: "(2 :: real) ^ (bit_length n - 1) \<le> real n" by simp
  from hi have "n + 1 \<le> 2 ^ bit_length n" by simp
  then have "real (n + 1) \<le> real (2 ^ bit_length n)"
    by (simp only: of_nat_le_iff)
  then have hr: "real n + 1 \<le> 2 ^ bit_length n" by simp
  from lr ny have 1: "(2 :: real) ^ (bit_length n - 1) < y" by linarith
  from hr ny have 2: "y \<le> 2 ^ bit_length n" by linarith
  have xy: "\<bar>x\<bar> = 1 / y" using x by (simp add: y_def)
  have lo': "1 / 2 ^ bit_length n \<le> \<bar>x\<bar>"
    unfolding xy using 2 y by (simp add: frac_le)
  have hi': "\<bar>x\<bar> < 1 / 2 ^ (bit_length n - 1)"
    unfolding xy using 1 by (simp add: frac_less2)
  have e: "- int (bit_length n) + 1 \<le> 0" "nat (- (- int (bit_length n) + 1)) = bit_length n - 1"
    using bl by simp_all
  show ?thesis
  proof (cases "bit_length n = 1")
    case True
    with lo' hi' show ?thesis unfolding b pow2_def by simp
  next
    case False
    with bl have "- int (bit_length n) + 1 < 0" by simp
    with lo' hi' e show ?thesis unfolding b pow2_def by simp
  qed
qed

lemma round_half_even_error: "\<bar>of_int (round_half_even y) - y\<bar> \<le> 1 / 2"
  unfolding round_half_even_def Let_def by (auto simp: abs_if) linarith+

lemma pow2_pos: "0 < pow2 k"
  by (simp add: pow2_def)

lemma fl_error:
  "\<bar>fl x - x\<bar> \<le> pow2 (max (binade x) (- 1022) - 52) / 2"
proof (cases "x = 0")
  case True
  then show ?thesis using pow2_pos [of "max (binade x) (- 1022) - 52"] by (simp add: fl_def)
next
  case False
  define q where "q = pow2 (max (binade x) (- 1022) - 52)"
  have q: "0 < q" unfolding q_def by (rule pow2_pos)
  have f: "fl x = of_int (round_half_even (x / q)) * q"
    using False by (simp add: fl_def q_def Let_def)
  have "fl x - x = (of_int (round_half_even (x / q)) - x / q) * q"
    unfolding f using q by (simp add: algebra_simps)
  then have "\<bar>fl x - x\<bar> = \<bar>of_int (round_half_even (x / q)) - x / q\<bar> * q"
    using q by (simp add: abs_mult)
  also have "\<dots> \<le> (1 / 2) * q"
    using round_half_even_error [of "x / q"] q by (intro mult_right_mono) simp_all
  finally show ?thesis by (simp add: q_def)
qed

lemma fl_at:
  assumes "binade x = k" and "x \<noteq> 0"
  shows "fl x = of_int (round_half_even (x / pow2 (max k (- 1022) - 52))) * pow2 (max k (- 1022) - 52)"
  using assms by (simp add: fl_def Let_def)

lemma headroom: "BUDGET_HEADROOM_PCT = 3602879701896397 / 2 ^ 55"
proof -
  have "binade (1 / 10) = - 4" by (simp add: binade_def bit_length.simps)
  from fl_at [OF this] have "fl (1 / 10) = 3602879701896397 / 2 ^ 55"
    by (simp add: pow2_def round_half_even_def Let_def)
  then show ?thesis by (simp add: BUDGET_HEADROOM_PCT_def)
qed

lemma factor: "fl (1 + BUDGET_HEADROOM_PCT) = 2476979795053773 / 2 ^ 51"
proof -
  have "binade (1 + 3602879701896397 / 2 ^ 55) = 0" by (simp add: binade_def bit_length.simps)
  from fl_at [OF this] show ?thesis
    unfolding headroom by (simp add: pow2_def round_half_even_def Let_def)
qed

text \<open>The roundings on the way to the five results below.\<close>

lemma fl_800: "fl 800 = 800"
proof -
  have "binade 800 = 9" by (simp add: binade_def bit_length.simps)
  from fl_at [OF this] show ?thesis
    by (simp add: pow2_def round_half_even_def Let_def)
qed

lemma fl_950: "fl 950 = 950"
proof -
  have "binade 950 = 9" by (simp add: binade_def bit_length.simps)
  from fl_at [OF this] show ?thesis
    by (simp add: pow2_def round_half_even_def Let_def)
qed

lemma fl_1000: "fl 1000 = 1000"
proof -
  have "binade 1000 = 9" by (simp add: binade_def bit_length.simps)
  from fl_at [OF this] show ?thesis
    by (simp add: pow2_def round_half_even_def Let_def)
qed

lemma fl_1700: "fl 1700 = 1700"
proof -
  have "binade 1700 = 10" by (simp add: binade_def bit_length.simps)
  from fl_at [OF this] show ?thesis
    by (simp add: pow2_def round_half_even_def Let_def)
qed

lemma fl_2700: "fl 2700 = 2700"
proof -
  have "binade 2700 = 11" by (simp add: binade_def bit_length.simps)
  from fl_at [OF this] show ?thesis
    by (simp add: pow2_def round_half_even_def Let_def)
qed

lemma fl_900: "fl 900 = 900"
proof -
  have "binade 900 = 9" by (simp add: binade_def bit_length.simps)
  from fl_at [OF this] show ?thesis
    by (simp add: pow2_def round_half_even_def Let_def)
qed

lemma fl_3000: "fl 3000 = 3000"
proof -
  have "binade 3000 = 11" by (simp add: binade_def bit_length.simps)
  from fl_at [OF this] show ?thesis
    by (simp add: pow2_def round_half_even_def Let_def)
qed

lemma fl_6000: "fl 6000 = 6000"
proof -
  have "binade 6000 = 12" by (simp add: binade_def bit_length.simps)
  from fl_at [OF this] show ?thesis
    by (simp add: pow2_def round_half_even_def Let_def)
qed

lemma fl_9000: "fl 9000 = 9000"
proof -
  have "binade 9000 = 13" by (simp add: binade_def bit_length.simps)
  from fl_at [OF this] show ?thesis
    by (simp add: pow2_def round_half_even_def Let_def)
qed

lemma fl_1000_F: "fl (1000 * fl (1 + BUDGET_HEADROOM_PCT)) = 1100"
proof -
  have "binade (1000 * fl (1 + BUDGET_HEADROOM_PCT)) = 10" by (simp add: binade_def bit_length.simps factor)
  from fl_at [OF this] show ?thesis
    by (simp add: pow2_def round_half_even_def Let_def factor)
qed

lemma fl_950_F: "fl (950 * fl (1 + BUDGET_HEADROOM_PCT)) = 1045"
proof -
  have "binade (950 * fl (1 + BUDGET_HEADROOM_PCT)) = 10" by (simp add: binade_def bit_length.simps factor)
  from fl_at [OF this] show ?thesis
    by (simp add: pow2_def round_half_even_def Let_def factor)
qed

lemma fl_3000_F: "fl (3000 * fl (1 + BUDGET_HEADROOM_PCT)) = 7256776743321601 / 2 ^ 41"
proof -
  have "binade (3000 * fl (1 + BUDGET_HEADROOM_PCT)) = 11" by (simp add: binade_def bit_length.simps factor)
  from fl_at [OF this] show ?thesis
    by (simp add: pow2_def round_half_even_def Let_def factor)
qed

lemma fl_11: "fl 11 = 11"
proof -
  have "binade 11 = 3" by (simp add: binade_def bit_length.simps)
  from fl_at [OF this] show ?thesis
    by (simp add: pow2_def round_half_even_def Let_def)
qed

lemma fl_1045_100: "fl (1045 / 100) = 2941413506626355 / 2 ^ 48"
proof -
  have "binade (1045 / 100) = 3" by (simp add: binade_def bit_length.simps)
  from fl_at [OF this] show ?thesis
    by (simp add: pow2_def round_half_even_def Let_def)
qed

lemma fl_3300_100: "fl (7256776743321601 / 2 ^ 41 / 100) = 4644337115725825 / 2 ^ 47"
proof -
  have "binade (7256776743321601 / 2 ^ 41 / 100) = 5" by (simp add: binade_def bit_length.simps)
  from fl_at [OF this] show ?thesis
    by (simp add: pow2_def round_half_even_def Let_def)
qed


lemma suggested_unfold:
  "compute_suggested_budget v p =
     of_int (\<lceil>fl (fl (max v (fl (fl (v + fsum p) / (1 + real (length p))))
                        * fl (1 + BUDGET_HEADROOM_PCT)) / 100)\<rceil> * 100)"
proof -
  have "compute_suggested_budget v p =
     py_round (of_int (\<lceil>fl (fl (max v (fl (fl (v + fsum p) / (1 + real (length p))))
                        * fl (1 + BUDGET_HEADROOM_PCT)) / 100)\<rceil> * 100)) 2"
    by (simp add: compute_suggested_budget_def BUDGET_ROUND_TO_def Let_def)
  then show ?thesis by (simp only: py_round_of_int)
qed

lemma suggested_from:
  assumes "max v (fl (fl (v + fsum p) / (1 + real (length p)))) = b"
    and "fl (b * fl (1 + BUDGET_HEADROOM_PCT)) = s"
    and "fl (s / 100) = q"
    and "\<lceil>q\<rceil> = c"
  shows "compute_suggested_budget v p = of_int (c * 100)"
  unfolding suggested_unfold by (simp only: assms)

lemma fl_1100_100: "fl (1100 / 100) = 11"
  using fl_11 by simp

lemma suggested_3000: "compute_suggested_budget 3000 [] = 3400"
proof -
  have "max 3000 (fl (fl (3000 + fsum []) / (1 + real (length ([] :: real list))))) = (3000 :: real)"
    by (simp add: fsum_def fl_3000)
  moreover have "fl (3000 * fl (1 + BUDGET_HEADROOM_PCT)) = 7256776743321601 / 2 ^ 41" by (rule fl_3000_F)
  moreover have "fl (7256776743321601 / 2 ^ 41 / 100) = 4644337115725825 / 2 ^ 47" by (rule fl_3300_100)
  moreover have "\<lceil>4644337115725825 / 2 ^ 47 :: real\<rceil> = 34" by simp
  ultimately have "compute_suggested_budget 3000 [] = of_int (34 * 100)"
    by (rule suggested_from)
  then show ?thesis by simp
qed

lemma suggested_3000_steady: "compute_suggested_budget 3000 [3000, 3000] = 3400"
proof -
  have "max 3000 (fl (fl (3000 + fsum [3000, 3000]) / (1 + real (length ([3000, 3000] :: real list))))) = (3000 :: real)"
    by (simp add: fsum_def fl_3000 fl_6000 fl_9000)
  moreover have "fl (3000 * fl (1 + BUDGET_HEADROOM_PCT)) = 7256776743321601 / 2 ^ 41" by (rule fl_3000_F)
  moreover have "fl (7256776743321601 / 2 ^ 41 / 100) = 4644337115725825 / 2 ^ 47" by (rule fl_3300_100)
  moreover have "\<lceil>4644337115725825 / 2 ^ 47 :: real\<rceil> = 34" by simp
  ultimately have "compute_suggested_budget 3000 [3000, 3000] = of_int (34 * 100)"
    by (rule suggested_from)
  then show ?thesis by simp
qed

lemma suggested_1000: "compute_suggested_budget 1000 [800, 900] = 1100"
proof -
  have "max 1000 (fl (fl (1000 + fsum [800, 900]) / (1 + real (length ([800, 900] :: real list))))) = (1000 :: real)"
    by (simp add: fsum_def fl_800 fl_1700 fl_2700 fl_900)
  moreover have "fl (1000 * fl (1 + BUDGET_HEADROOM_PCT)) = 1100" by (rule fl_1000_F)
  moreover have "fl (1100 / 100) = 11" by (rule fl_1100_100)
  moreover have "\<lceil>11 :: real\<rceil> = 11" by simp
  ultimately have "compute_suggested_budget 1000 [800, 900] = of_int (11 * 100)"
    by (rule suggested_from)
  then show ?thesis by simp
qed

lemma suggested_950: "compute_suggested_budget 950 [] = 1100"
proof -
  have "max 950 (fl (fl (950 + fsum []) / (1 + real (length ([] :: real list))))) = (950 :: real)"
    by (simp add: fsum_def fl_950)
  moreover have "fl (950 * fl (1 + BUDGET_HEADROOM_PCT)) = 1045" by (rule fl_950_F)
  moreover have "fl (1045 / 100) = 2941413506626355 / 2 ^ 48" by (rule fl_1045_100)
  moreover have "\<lceil>2941413506626355 / 2 ^ 48 :: real\<rceil> = 11" by simp
  ultimately have "compute_suggested_budget 950 [] = of_int (11 * 100)"
    by (rule suggested_from)
  then show ?thesis by simp
qed

text \<open>
  C1. With \<^verbatim>\<open>value = 3000.0\<close> and no earlier months the function returns 3400, where the
  formula of the claim gives 3300: the product \<^verbatim>\<open>3000.0 * 1.1\<close> rounds to the \<^verbatim>\<open>float\<close>
  just above 3300, its hundredth to the one just above 33, and \<^verbatim>\<open>math.ceil\<close> of that is
  34. The same happens with two earlier months of 3000 each. The two examples of the
  specification come out as 1100, as it says.
\<close>

theorem compute_suggested_budget_divergence:
  "compute_suggested_budget 3000 [] = 3400
   \<and> spec_suggested_budget 3000 [] = 3300
   \<and> compute_suggested_budget 3000 [3000, 3000] = 3400
   \<and> spec_suggested_budget 3000 [3000, 3000] = 3300
   \<and> compute_suggested_budget 1000 [800, 900] = 1100
   \<and> compute_suggested_budget 950 [] = 1100"
proof -
  have "spec_suggested_budget 3000 [] = 3300"
    by (simp add: spec_suggested_budget_def py_round_def round_half_even_def)
  moreover have "spec_suggested_budget 3000 [3000, 3000] = 3300"
    by (simp add: spec_suggested_budget_def py_round_def round_half_even_def)
  ultimately show ?thesis
    using suggested_3000 suggested_3000_steady suggested_1000 suggested_950 by simp
qed

subsection \<open>The request client\<close>

lemma retryable_raises:
  "status_code resp \<in> retryable \<Longrightarrow> raise_for_status resp = Inl (HTTPError (status_code resp))"
  by (auto simp: retryable_def raise_for_status_def)

lemma map_upt_shift:
  "f 0 # map (\<lambda>i. f (Suc i)) [0..<n] = map f [0..<Suc n]"
  by (simp add: map_upt_Suc del: upt_Suc)

text \<open>
  When each of the requests up to the retry limit times out or answers with a retryable
  status, the loop issues all of them and raises what the last one gave.
\<close>

lemma loop_exhaust:
  assumes "attempt \<le> 6"
    and "\<And>i. attempt + i \<le> 6 \<Longrightarrow>
           (case srv (k + i) of Raised e \<Rightarrow> e = ReadTimeout
                              | Responded r \<Rightarrow> status_code r \<in> retryable)"
  shows "do_request_loop srv attempt k sl =
           \<lparr>result = Inl (case srv (k + (6 - attempt)) of
                            Raised e \<Rightarrow> e | Responded r \<Rightarrow> HTTPError (status_code r)),
            issued = k + (7 - attempt),
            slept = sl @ map (\<lambda>i. backoff_sleep
                                   (case srv (k + i) of Raised e \<Rightarrow> None
                                                      | Responded r \<Rightarrow> retry_after r)
                                   (attempt + i + 1)) [0..<6 - attempt]\<rparr>"
  using assms
proof (induction "6 - attempt" arbitrary: attempt k sl)
  case 0
  then have a: "attempt = 6" by simp
  from "0.prems"(2)[of 0] a
  have h: "case srv k of Raised e \<Rightarrow> e = ReadTimeout | Responded r \<Rightarrow> status_code r \<in> retryable"
    by simp
  show ?case
    using h a by (subst do_request_loop.simps) (auto split: outcome.splits simp: retryable_raises)
next
  case (Suc n)
  then have a: "attempt < 6" and n: "n = 6 - (attempt + 1)" by simp_all
  from Suc.prems(2)[of 0] a
  have h: "case srv k of Raised e \<Rightarrow> e = ReadTimeout | Responded r \<Rightarrow> status_code r \<in> retryable"
    by simp
  have later: "\<And>i. attempt + 1 + i \<le> 6 \<Longrightarrow>
           (case srv (k + 1 + i) of Raised e \<Rightarrow> e = ReadTimeout
                              | Responded r \<Rightarrow> status_code r \<in> retryable)"
    using Suc.prems(2)[of "Suc i" for i] by simp
  have le: "attempt + 1 \<le> 6" using a by simp
  note IH = Suc.hyps(1)[OF n le later]
  have idx: "6 - attempt = Suc (6 - (attempt + 1))" using a by simp
  let ?f = "\<lambda>i. backoff_sleep (case srv (k + i) of Raised e \<Rightarrow> None | Responded r \<Rightarrow> retry_after r)
                 (attempt + i + 1)"
  have shift: "?f 0 # map (\<lambda>i. ?f (Suc i)) [0..<6 - (attempt + 1)] = map ?f [0..<6 - attempt]"
    unfolding idx by (rule map_upt_shift)
  have step: "do_request_loop srv attempt k sl =
               do_request_loop srv (attempt + 1) (k + 1) (sl @ [?f 0])"
    using h a by (subst do_request_loop.simps) (auto split: outcome.splits)
  have "do_request_loop srv (attempt + 1) (k + 1) (sl @ [?f 0]) =
          \<lparr>result = Inl (case srv (k + 1 + (6 - (attempt + 1))) of
                            Raised e \<Rightarrow> e | Responded r \<Rightarrow> HTTPError (status_code r)),
            issued = k + 1 + (7 - (attempt + 1)),
            slept = (sl @ [?f 0]) @ map (\<lambda>i. backoff_sleep
                                   (case srv (k + 1 + i) of Raised e \<Rightarrow> None
                                                      | Responded r \<Rightarrow> retry_after r)
                                   (attempt + 1 + i + 1)) [0..<6 - (attempt + 1)]\<rparr>"
    by (rule IH)
  also have "k + 1 + (6 - (attempt + 1)) = k + (6 - attempt)" using a by simp
  also have "k + 1 + (7 - (attempt + 1)) = k + (7 - attempt)" using a by simp
  also have "(sl @ [?f 0]) @ map (\<lambda>i. backoff_sleep
                                   (case srv (k + 1 + i) of Raised e \<Rightarrow> None
                                                      | Responded r \<Rightarrow> retry_after r)
                                   (attempt + 1 + i + 1)) [0..<6 - (attempt + 1)]
              = sl @ map ?f [0..<6 - attempt]"
    using shift by simp
  finally show ?case using step by simp
qed

lemma do_request_exhaust:
  assumes "\<And>k. k < 7 \<Longrightarrow>
           (case srv k of Raised e \<Rightarrow> e = ReadTimeout
                        | Responded r \<Rightarrow> status_code r \<in> retryable)"
  shows "do_request srv =
           \<lparr>result = Inl (case srv 6 of Raised e \<Rightarrow> e | Responded r \<Rightarrow> HTTPError (status_code r)),
            issued = 7,
            slept = map (\<lambda>i. backoff_sleep
                              (case srv i of Raised e \<Rightarrow> None | Responded r \<Rightarrow> retry_after r)
                              (i + 1)) [0..<6]\<rparr>"
proof -
  have "do_request_loop srv 0 0 [] =
           \<lparr>result = Inl (case srv (0 + (6 - 0)) of
                            Raised e \<Rightarrow> e | Responded r \<Rightarrow> HTTPError (status_code r)),
            issued = 0 + (7 - 0),
            slept = [] @ map (\<lambda>i. backoff_sleep
                                   (case srv (0 + i) of Raised e \<Rightarrow> None
                                                      | Responded r \<Rightarrow> retry_after r)
                                   (0 + i + 1)) [0..<6 - 0]\<rparr>"
    by (rule loop_exhaust) (use assms in simp_all)
  then show ?thesis by (simp add: do_request_def)
qed

lemma do_request_first_final:
  assumes "case srv 0 of Raised e \<Rightarrow> e \<noteq> ReadTimeout | Responded r \<Rightarrow> status_code r \<notin> retryable"
  shows "do_request srv =
           \<lparr>result = (case srv 0 of
                        Raised e \<Rightarrow> Inl e
                      | Responded r \<Rightarrow>
                          if 400 \<le> status_code r \<and> status_code r < 600
                          then Inl (HTTPError (status_code r)) else Inr r),
            issued = 1, slept = []\<rparr>"
  using assms unfolding do_request_def
  by (subst do_request_loop.simps) (auto split: outcome.splits simp: raise_for_status_def)

text \<open>
  C2, as the code has it. When each of the first seven requests answers with a status in
  \<open>{429, 500, 502, 503, 504}\<close>, \<open>do_request\<close> issues exactly seven requests and raises
  \<open>HTTPError\<close> with the status of the seventh; when each raises \<open>ReadTimeout\<close>, it issues
  exactly seven and raises \<open>ReadTimeout\<close>. A first response with a status from 400 to 599
  outside that set raises \<open>HTTPError\<close> after one request and no sleep; one with any other
  status outside the set (below 400, a 3xx included) is returned after one request; any
  exception of the request other than \<open>ReadTimeout\<close> leaves after one request.
\<close>

theorem do_request_retry_spec:
  "((\<forall>k<7. \<exists>r. srv k = Responded r \<and> status_code r \<in> retryable) \<longrightarrow>
      (\<exists>r. srv 6 = Responded r \<and> result (do_request srv) = Inl (HTTPError (status_code r)))
      \<and> issued (do_request srv) = 7 \<and> length (slept (do_request srv)) = 6)
   \<and> ((\<forall>k<7. srv k = Raised ReadTimeout) \<longrightarrow>
      do_request srv = \<lparr>result = Inl ReadTimeout, issued = 7, slept = [2, 4, 8, 16, 30, 30]\<rparr>)
   \<and> (\<forall>r. srv 0 = Responded r \<and> status_code r \<notin> retryable
          \<and> 400 \<le> status_code r \<and> status_code r < 600 \<longrightarrow>
      do_request srv = \<lparr>result = Inl (HTTPError (status_code r)), issued = 1, slept = []\<rparr>)
   \<and> (\<forall>r. srv 0 = Responded r \<and> status_code r \<notin> retryable
          \<and> (status_code r < 400 \<or> 600 \<le> status_code r) \<longrightarrow>
      do_request srv = \<lparr>result = Inr r, issued = 1, slept = []\<rparr>)
   \<and> (\<forall>e. srv 0 = Raised e \<and> e \<noteq> ReadTimeout \<longrightarrow>
      do_request srv = \<lparr>result = Inl e, issued = 1, slept = []\<rparr>)"
proof (intro conjI impI allI)
  assume a: "\<forall>k<7. \<exists>r. srv k = Responded r \<and> status_code r \<in> retryable"
  then have c: "\<And>k. k < 7 \<Longrightarrow>
           (case srv k of Raised e \<Rightarrow> e = ReadTimeout
                        | Responded r \<Rightarrow> status_code r \<in> retryable)"
    by (auto split: outcome.splits)
  from a [rule_format, of 6] obtain r where r: "srv 6 = Responded r" by auto
  note run = do_request_exhaust [OF c]
  show "\<exists>r. srv 6 = Responded r \<and> result (do_request srv) = Inl (HTTPError (status_code r))"
    using r by (simp add: run)
  show "issued (do_request srv) = 7"
    by (simp add: run)
  show "length (slept (do_request srv)) = 6"
    by (simp add: run)
next
  assume a: "\<forall>k<7. srv k = Raised ReadTimeout"
  then have c: "\<And>k. k < 7 \<Longrightarrow>
           (case srv k of Raised e \<Rightarrow> e = ReadTimeout
                        | Responded r \<Rightarrow> status_code r \<in> retryable)"
    by simp
  have "[0..<6] = [0, 1, 2, 3, 4, 5::nat]"
    by (simp add: upt_rec)
  then show "do_request srv = \<lparr>result = Inl ReadTimeout, issued = 7, slept = [2, 4, 8, 16, 30, 30]\<rparr>"
    using a by (simp add: do_request_exhaust [OF c] backoff_sleep_def)
next
  fix r
  assume "srv 0 = Responded r \<and> status_code r \<notin> retryable
          \<and> 400 \<le> status_code r \<and> status_code r < 600"
  then show "do_request srv = \<lparr>result = Inl (HTTPError (status_code r)), issued = 1, slept = []\<rparr>"
    using do_request_first_final [of srv] by simp
next
  fix r
  assume "srv 0 = Responded r \<and> status_code r \<notin> retryable
          \<and> (status_code r < 400 \<or> 600 \<le> status_code r)"
  then show "do_request srv = \<lparr>result = Inr r, issued = 1, slept = []\<rparr>"
    using do_request_first_final [of srv] by auto
next
  fix e
  assume "srv 0 = Raised e \<and> e \<noteq> ReadTimeout"
  then show "do_request srv = \<lparr>result = Inl e, issued = 1, slept = []\<rparr>"
    using do_request_first_final [of srv] by simp
qed

theorem do_request_retry_spec_witness:
  "result (do_request (always (Responded \<lparr>status_code = 503, retry_after = None\<rparr>)))
     = Inl (HTTPError 503)
   \<and> issued (do_request (always (Responded \<lparr>status_code = 503, retry_after = None\<rparr>))) = 7
   \<and> do_request (always (Raised ReadTimeout))
     = \<lparr>result = Inl ReadTimeout, issued = 7, slept = [2, 4, 8, 16, 30, 30]\<rparr>
   \<and> do_request (always (Responded \<lparr>status_code = 404, retry_after = None\<rparr>))
     = \<lparr>result = Inl (HTTPError 404), issued = 1, slept = []\<rparr>
   \<and> do_request (always (Responded \<lparr>status_code = 200, retry_after = None\<rparr>))
     = \<lparr>result = Inr \<lparr>status_code = 200, retry_after = None\<rparr>, issued = 1, slept = []\<rparr>
   \<and> do_request (always (Raised ConnectTimeout))
     = \<lparr>result = Inl ConnectTimeout, issued = 1, slept = []\<rparr>"
  using do_request_retry_spec [of "always (Responded \<lparr>status_code = 503, retry_after = None\<rparr>)"]
    do_request_retry_spec [of "always (Raised ReadTimeout)"]
    do_request_retry_spec [of "always (Responded \<lparr>status_code = 404, retry_after = None\<rparr>)"]
    do_request_retry_spec [of "always (Responded \<lparr>status_code = 200, retry_after = None\<rparr>)"]
    do_request_retry_spec [of "always (Raised ConnectTimeout)"]
  by (simp add: always_def retryable_def)

text \<open>
  The claim as stated fails on a status that is neither 2xx nor an error: a 304 is not
  retried, and it does not fail either.
\<close>

theorem do_request_304_counterexample:
  "do_request (always (Responded \<lparr>status_code = 304, retry_after = None\<rparr>))
     = \<lparr>result = Inr \<lparr>status_code = 304, retry_after = None\<rparr>, issued = 1, slept = []\<rparr>"
  by (simp add: do_request_def do_request_loop.simps always_def retryable_def raise_for_status_def)

lemma loop_slept:
  "k < issued (do_request_loop srv attempt k sl)
   \<and> slept (do_request_loop srv attempt k sl) =
       sl @ map (\<lambda>i. backoff_sleep
                       (case srv (k + i) of Raised e \<Rightarrow> None | Responded r \<Rightarrow> retry_after r)
                       (attempt + i + 1))
              [0..<issued (do_request_loop srv attempt k sl) - (k + 1)]"
proof (induction srv attempt k sl rule: do_request_loop.induct)
  case (1 srv attempt k sl)
  let ?f = "\<lambda>k attempt i. backoff_sleep
                       (case srv (k + i) of Raised e \<Rightarrow> None | Responded r \<Rightarrow> retry_after r)
                       (attempt + i + 1)"
  have rec: "k < issued (do_request_loop srv attempt k sl)
             \<and> slept (do_request_loop srv attempt k sl) =
                 sl @ map (?f k attempt) [0..<issued (do_request_loop srv attempt k sl) - (k + 1)]"
    if eq: "do_request_loop srv attempt k sl =
              do_request_loop srv (attempt + 1) (k + 1) (sl @ [?f k attempt 0])"
      and ih: "k + 1 < issued (do_request_loop srv (attempt + 1) (k + 1) (sl @ [?f k attempt 0]))
               \<and> slept (do_request_loop srv (attempt + 1) (k + 1) (sl @ [?f k attempt 0])) =
                 (sl @ [?f k attempt 0]) @ map (?f (k + 1) (attempt + 1))
                    [0..<issued (do_request_loop srv (attempt + 1) (k + 1) (sl @ [?f k attempt 0]))
                         - (k + 1 + 1)]"
  proof -
    define n where "n = issued (do_request_loop srv (attempt + 1) (k + 1) (sl @ [?f k attempt 0]))"
    from ih have lt: "k + 1 < n" and sl: "slept (do_request_loop srv attempt k sl) =
                 (sl @ [?f k attempt 0]) @ map (?f (k + 1) (attempt + 1)) [0..<n - (k + 1 + 1)]"
      unfolding n_def eq by simp_all
    have idx: "n - (k + 1) = Suc (n - (k + 1 + 1))" using lt by simp
    have "?f k attempt 0 # map (\<lambda>i. ?f k attempt (Suc i)) [0..<n - (k + 1 + 1)]
            = map (?f k attempt) [0..<n - (k + 1)]"
      unfolding idx by (rule map_upt_shift)
    then have "(sl @ [?f k attempt 0]) @ map (?f (k + 1) (attempt + 1)) [0..<n - (k + 1 + 1)]
            = sl @ map (?f k attempt) [0..<n - (k + 1)]"
      by simp
    with sl lt show ?thesis unfolding eq n_def [symmetric] by simp
  qed
  show ?case
  proof (cases "srv k")
    case (Raised e)
    show ?thesis
    proof (cases "e = ReadTimeout \<and> \<not> attempt + 1 > 6")
      case True
      have eq: "do_request_loop srv attempt k sl =
              do_request_loop srv (attempt + 1) (k + 1) (sl @ [?f k attempt 0])"
        using Raised True by (subst do_request_loop.simps) simp
      have ih: "k + 1 < issued (do_request_loop srv (attempt + 1) (k + 1) (sl @ [?f k attempt 0]))
               \<and> slept (do_request_loop srv (attempt + 1) (k + 1) (sl @ [?f k attempt 0])) =
                 (sl @ [?f k attempt 0]) @ map (?f (k + 1) (attempt + 1))
                    [0..<issued (do_request_loop srv (attempt + 1) (k + 1) (sl @ [?f k attempt 0]))
                         - (k + 1 + 1)]"
        using "1.IH"(1) [of e] Raised True by simp
      from rec [OF eq ih] show ?thesis .
    next
      case False
      then show ?thesis
        using Raised by (subst (1 2 3) do_request_loop.simps) auto
    qed
  next
    case (Responded resp)
    show ?thesis
    proof (cases "status_code resp \<in> retryable \<and> \<not> attempt + 1 > 6")
      case True
      have eq: "do_request_loop srv attempt k sl =
              do_request_loop srv (attempt + 1) (k + 1) (sl @ [?f k attempt 0])"
        using Responded True by (subst do_request_loop.simps) simp
      have ih: "k + 1 < issued (do_request_loop srv (attempt + 1) (k + 1) (sl @ [?f k attempt 0]))
               \<and> slept (do_request_loop srv (attempt + 1) (k + 1) (sl @ [?f k attempt 0])) =
                 (sl @ [?f k attempt 0]) @ map (?f (k + 1) (attempt + 1))
                    [0..<issued (do_request_loop srv (attempt + 1) (k + 1) (sl @ [?f k attempt 0]))
                         - (k + 1 + 1)]"
        using "1.IH"(2) [of resp "()"] Responded True by simp
      from rec [OF eq ih] show ?thesis .
    next
      case False
      then show ?thesis
        using Responded
        by (subst (1 2 3) do_request_loop.simps)
           (auto simp: retryable_raises split: sum.splits)
    qed
  qed
qed

text \<open>
  C9, as the code has it. \<open>backoff_sleep\<close> sleeps \<open>max 1 (min secs 60)\<close> seconds when
  the \<open>Retry-After\<close> header is present and \<open>int\<close> reads it as the integer \<open>secs\<close>; when the
  header is absent, empty or not an integer it sleeps \<open>min (2 ^ attempt) 30\<close> seconds.
  In \<open>do_request\<close> the sleep after the request number \<open>i\<close> (counted from 0) that is
  followed by a retry is \<open>backoff_sleep\<close> of that response's header (none after a
  timeout) with \<open>attempt = i + 1\<close>: the retry number, counted from 1.
\<close>

theorem backoff_sleep_spec:
  "backoff_sleep h a =
     (case h of
        None \<Rightarrow> min (2 ^ a) 30
      | Some s \<Rightarrow> (case py_int s of Some secs \<Rightarrow> max 1 (min secs 60) | None \<Rightarrow> min (2 ^ a) 30))
   \<and> slept (do_request srv) =
       map (\<lambda>i. backoff_sleep
                  (case srv i of Raised e \<Rightarrow> None | Responded r \<Rightarrow> retry_after r) (i + 1))
           [0..<issued (do_request srv) - 1]"
proof
  have "py_int [] = None"
    by (simp add: py_int_def strip_def)
  then show "backoff_sleep h a =
     (case h of
        None \<Rightarrow> min (2 ^ a) 30
      | Some s \<Rightarrow> (case py_int s of Some secs \<Rightarrow> max 1 (min secs 60) | None \<Rightarrow> min (2 ^ a) 30))"
    by (auto simp: backoff_sleep_def split: option.splits)
  show "slept (do_request srv) =
       map (\<lambda>i. backoff_sleep
                  (case srv i of Raised e \<Rightarrow> None | Responded r \<Rightarrow> retry_after r) (i + 1))
           [0..<issued (do_request srv) - 1]"
    using loop_slept [of 0 srv 0 "[]"] by (simp add: do_request_def)
qed

text \<open>
  The claim as stated fails on a \<open>Retry-After\<close> value that is not an integer: with
  \<open>120.5\<close>, or with an HTTP date, the sleep is the exponential backoff of the attempt,
  not the value clamped to \<open>[1, 60]\<close> (which would be 60 for \<open>120.5\<close>).
\<close>

theorem backoff_sleep_counterexample:
  "backoff_sleep (Some ''120.5'') 1 = 2
   \<and> backoff_sleep (Some ''120.5'') 3 = 8
   \<and> backoff_sleep (Some ''Wed, 21 Oct 2015 07:28:00 GMT'') 1 = 2
   \<and> backoff_sleep (Some ''120'') 1 = 60"
  by (simp add: backoff_sleep_def py_int_def strip_def is_space_def is_digit_def digit_val_def)

subsection \<open>Month windows\<close>

lemma days_in_month_pos: "1 \<le> days_in_month y m"
  by (simp add: days_in_month_def)

lemma min_days_one [simp]: "min (days_in_month y m) 1 = 1"
  using days_in_month_pos [of y m] by simp

lemma month_number_split:
  fixes k :: int
  obtains q r where "k = 12 * q + r" "0 \<le> r" "r < 12"
proof
  show "k = 12 * (k div 12) + k mod 12" by simp
  show "0 \<le> k mod 12" "k mod 12 < 12" by simp_all
qed

lemma window_qr:
  assumes "0 \<le> r" "r < 12"
  shows "spec_month_window (12 * q + r) =
           (\<lparr>year = q + 1, month = r + 1, day = 1\<rparr>,
            \<lparr>year = q + 1, month = r + 1, day = days_in_month (q + 1) (r + 1)\<rparr>)"
  using assms by (simp add: spec_month_window_def)

lemma first_of_month_window: "first_of_month (fst (spec_month_window k)) = fst (spec_month_window k)"
  by (simp add: first_of_month_def spec_month_window_def)

lemma add_months_next:
  assumes "0 \<le> k" "k < 119987"
  shows "add_months (fst (spec_month_window k)) 1 = Inr (fst (spec_month_window (k + 1)))"
proof -
  obtain q r where k: "k = 12 * q + r" and r: "0 \<le> r" "r < 12"
    by (rule month_number_split)
  from assms k r have q: "0 \<le> q" "q \<le> 9998" by auto
  have w: "spec_month_window (k) =
           (\<lparr>year = q + 1, month = r + 1, day = 1\<rparr>,
            \<lparr>year = q + 1, month = r + 1, day = days_in_month (q + 1) (r + 1)\<rparr>)"
    unfolding k using r by (rule window_qr)
  show ?thesis
  proof (cases "r = 11")
    case True
    with assms k have q': "q < 9998" by simp
    have k1: "k + 1 = 12 * (q + 1) + 0" using k True by simp
    have w1: "spec_month_window (k + 1) =
           (\<lparr>year = (q + 1) + 1, month = 0 + 1, day = 1\<rparr>,
            \<lparr>year = (q + 1) + 1, month = 0 + 1, day = days_in_month ((q + 1) + 1) (0 + 1)\<rparr>)"
      unfolding k1 by (rule window_qr) simp_all
    show ?thesis
      using q q' True by (simp add: w w1 add_months_def Let_def)
  next
    case False
    have k1: "k + 1 = 12 * q + (r + 1)" using k by simp
    have w1: "spec_month_window (k + 1) =
           (\<lparr>year = q + 1, month = (r + 1) + 1, day = 1\<rparr>,
            \<lparr>year = q + 1, month = (r + 1) + 1, day = days_in_month (q + 1) ((r + 1) + 1)\<rparr>)"
      unfolding k1 by (rule window_qr) (use r False in simp_all)
    show ?thesis
      using q r False by (simp add: w w1 add_months_def Let_def)
  qed
qed

lemma add_months_prev:
  assumes "1 \<le> k" "k \<le> 119987"
  shows "add_months (fst (spec_month_window k)) (- 1) = Inr (fst (spec_month_window (k - 1)))"
proof -
  obtain q r where k: "k = 12 * q + r" and r: "0 \<le> r" "r < 12"
    by (rule month_number_split)
  from assms k r have q: "0 \<le> q" "q \<le> 9998" by auto
  have w: "spec_month_window (k) =
           (\<lparr>year = q + 1, month = r + 1, day = 1\<rparr>,
            \<lparr>year = q + 1, month = r + 1, day = days_in_month (q + 1) (r + 1)\<rparr>)"
    unfolding k using r by (rule window_qr)
  show ?thesis
  proof (cases "r = 0")
    case True
    with assms k have q': "1 \<le> q" by simp
    have k1: "k - 1 = 12 * (q - 1) + 11" using k True by simp
    have w1: "spec_month_window (k - 1) =
           (\<lparr>year = (q - 1) + 1, month = 11 + 1, day = 1\<rparr>,
            \<lparr>year = (q - 1) + 1, month = 11 + 1, day = days_in_month ((q - 1) + 1) (11 + 1)\<rparr>)"
      unfolding k1 by (rule window_qr) simp_all
    show ?thesis
      using q q' True by (simp add: w w1 add_months_def Let_def)
  next
    case False
    have k1: "k - 1 = 12 * q + (r - 1)" using k by simp
    have w1: "spec_month_window (k - 1) =
           (\<lparr>year = q + 1, month = (r - 1) + 1, day = 1\<rparr>,
            \<lparr>year = q + 1, month = (r - 1) + 1, day = days_in_month (q + 1) ((r - 1) + 1)\<rparr>)"
      unfolding k1 by (rule window_qr) (use r False in simp_all)
    show ?thesis
      using q r False by (simp add: w w1 add_months_def Let_def)
  qed
qed

lemma add_months_prev_first:
  "add_months (fst (spec_month_window 0)) (- 1) = Inl ValueError"
  by (simp add: add_months_def spec_month_window_def Let_def)

lemma sub_day_first:
  assumes "1 \<le> k" "k \<le> 119987"
  shows "sub_day (fst (spec_month_window k)) = Inr (snd (spec_month_window (k - 1)))"
proof -
  obtain q r where k: "k = 12 * q + r" and r: "0 \<le> r" "r < 12"
    by (rule month_number_split)
  from assms k r have q: "0 \<le> q" "q \<le> 9998" by auto
  have w: "spec_month_window (k) =
           (\<lparr>year = q + 1, month = r + 1, day = 1\<rparr>,
            \<lparr>year = q + 1, month = r + 1, day = days_in_month (q + 1) (r + 1)\<rparr>)"
    unfolding k using r by (rule window_qr)
  show ?thesis
  proof (cases "r = 0")
    case True
    with assms k have q': "1 \<le> q" by simp
    have k1: "k - 1 = 12 * (q - 1) + 11" using k True by simp
    have w1: "spec_month_window (k - 1) =
           (\<lparr>year = (q - 1) + 1, month = 11 + 1, day = 1\<rparr>,
            \<lparr>year = (q - 1) + 1, month = 11 + 1, day = days_in_month ((q - 1) + 1) (11 + 1)\<rparr>)"
      unfolding k1 by (rule window_qr) simp_all
    show ?thesis
      using q q' True by (simp add: w w1 sub_day_def days_in_month_def)
  next
    case False
    have k1: "k - 1 = 12 * q + (r - 1)" using k by simp
    have w1: "spec_month_window (k - 1) =
           (\<lparr>year = q + 1, month = (r - 1) + 1, day = 1\<rparr>,
            \<lparr>year = q + 1, month = (r - 1) + 1, day = days_in_month (q + 1) ((r - 1) + 1)\<rparr>)"
      unfolding k1 by (rule window_qr) (use r False in simp_all)
    show ?thesis
      using q r False by (simp add: w w1 sub_day_def days_in_month_def)
  qed
qed

lemma add_day_last:
  assumes "0 \<le> k" "k < 119987"
  shows "add_day (snd (spec_month_window k)) = Inr (fst (spec_month_window (k + 1)))"
proof -
  obtain q r where k: "k = 12 * q + r" and r: "0 \<le> r" "r < 12"
    by (rule month_number_split)
  from assms k r have q: "0 \<le> q" "q \<le> 9998" by auto
  have w: "spec_month_window (k) =
           (\<lparr>year = q + 1, month = r + 1, day = 1\<rparr>,
            \<lparr>year = q + 1, month = r + 1, day = days_in_month (q + 1) (r + 1)\<rparr>)"
    unfolding k using r by (rule window_qr)
  show ?thesis
  proof (cases "r = 11")
    case True
    with assms k have q': "q < 9998" by simp
    have k1: "k + 1 = 12 * (q + 1) + 0" using k True by simp
    have w1: "spec_month_window (k + 1) =
           (\<lparr>year = (q + 1) + 1, month = 0 + 1, day = 1\<rparr>,
            \<lparr>year = (q + 1) + 1, month = 0 + 1, day = days_in_month ((q + 1) + 1) (0 + 1)\<rparr>)"
      unfolding k1 by (rule window_qr) simp_all
    show ?thesis
      using q q' True by (simp add: w w1 add_day_def)
  next
    case False
    have k1: "k + 1 = 12 * q + (r + 1)" using k by simp
    have w1: "spec_month_window (k + 1) =
           (\<lparr>year = q + 1, month = (r + 1) + 1, day = 1\<rparr>,
            \<lparr>year = q + 1, month = (r + 1) + 1, day = days_in_month (q + 1) ((r + 1) + 1)\<rparr>)"
      unfolding k1 by (rule window_qr) (use r False in simp_all)
    show ?thesis
      using q r False by (simp add: w w1 add_day_def)
  qed
qed

lemma month_windows_loop_exact:
  assumes "0 \<le> k" "k < 119987"
  shows "month_windows_loop j (fst (spec_month_window k)) out =
           (if int j \<le> k
            then Inr (out @ map (\<lambda>i. spec_month_window (k - int i)) [0..<j])
            else Inl ValueError)"
  using assms
proof (induction j arbitrary: k out)
  case 0
  then show ?case by simp
next
  case (Suc j)
  have nxt: "add_months (fst (spec_month_window k)) 1 = Inr (fst (spec_month_window (k + 1)))"
    using Suc.prems by (rule add_months_next)
  have lst: "sub_day (fst (spec_month_window (k + 1))) = Inr (snd (spec_month_window k))"
    using sub_day_first [of "k + 1"] Suc.prems by simp
  show ?case
  proof (cases "k = 0")
    case True
    then show ?thesis
      using nxt lst by (simp add: first_of_month_window add_months_prev_first Let_def)
  next
    case False
    with Suc.prems have k1: "1 \<le> k" "k \<le> 119987" "0 \<le> k - 1" "k - 1 < 119987" by simp_all
    have prv: "add_months (fst (spec_month_window k)) (- 1) = Inr (fst (spec_month_window (k - 1)))"
      using k1(1,2) by (rule add_months_prev)
    have step: "month_windows_loop (Suc j) (fst (spec_month_window k)) out =
                month_windows_loop j (fst (spec_month_window (k - 1))) (out @ [spec_month_window k])"
      using nxt lst prv by (simp add: first_of_month_window Let_def)
    have shift: "spec_month_window k # map (\<lambda>i. spec_month_window (k - 1 - int i)) [0..<j]
                 = map (\<lambda>i. spec_month_window (k - int i)) [0..<Suc j]"
      using map_upt_shift [of "\<lambda>i. spec_month_window (k - int i)" j]
      by (simp add: algebra_simps)
    have "month_windows_loop j (fst (spec_month_window (k - 1))) (out @ [spec_month_window k]) =
           (if int j \<le> k - 1
            then Inr ((out @ [spec_month_window k]) @ map (\<lambda>i. spec_month_window (k - 1 - int i)) [0..<j])
            else Inl ValueError)"
      using k1(3,4) by (rule Suc.IH)
    also have "\<dots> = (if int (Suc j) \<le> k
            then Inr (out @ map (\<lambda>i. spec_month_window (k - int i)) [0..<Suc j])
            else Inl ValueError)"
      using shift by (simp del: upt_Suc)
    finally show ?thesis using step by simp
  qed
qed

lemma valid_date_first:
  assumes "valid_date d"
  shows "first_of_month d = fst (spec_month_window (spec_month_number d))"
    and "0 \<le> spec_month_number d" and "spec_month_number d \<le> 119987"
proof -
  from assms have m: "1 \<le> month d" "month d \<le> 12" and y: "1 \<le> year d" "year d \<le> 9999"
    by (simp_all add: valid_date_def)
  have "spec_month_window (12 * (year d - 1) + (month d - 1)) =
           (\<lparr>year = (year d - 1) + 1, month = (month d - 1) + 1, day = 1\<rparr>,
            \<lparr>year = (year d - 1) + 1, month = (month d - 1) + 1,
             day = days_in_month ((year d - 1) + 1) ((month d - 1) + 1)\<rparr>)"
    by (rule window_qr) (use m in simp_all)
  then show "first_of_month d = fst (spec_month_window (spec_month_number d))"
    unfolding spec_month_number_def by (cases d) (simp add: first_of_month_def)
  show "0 \<le> spec_month_number d" "spec_month_number d \<le> 119987"
    using m y by (simp_all add: spec_month_number_def)
qed

lemma first_last_day_exact:
  assumes "valid_date today"
  shows "first_last_day_of_last_n_months today n =
           (if int (nat n) < spec_month_number today
            then Inr (map (\<lambda>i. spec_month_window (spec_month_number today - 1 - int i)) [0..<nat n])
            else Inl ValueError)"
proof -
  let ?K = "spec_month_number today"
  note v = valid_date_first [OF assms]
  show ?thesis
  proof (cases "?K = 0")
    case True
    then show ?thesis
      by (simp add: first_last_day_of_last_n_months_def v(1) add_months_prev_first)
  next
    case False
    with v have k: "1 \<le> ?K" "?K \<le> 119987" "0 \<le> ?K - 1" "?K - 1 < 119987" by simp_all
    have "add_months (fst (spec_month_window ?K)) (- 1) = Inr (fst (spec_month_window (?K - 1)))"
      using k(1,2) by (rule add_months_prev)
    then show ?thesis
      using month_windows_loop_exact [OF k(3,4), of "nat n" "[]"]
      by (simp add: first_last_day_of_last_n_months_def v(1))
  qed
qed



text \<open>
  C7, as the code has it. For a valid \<open>today\<close> in month number \<open>M\<close> (months counted
  from January of year 1) and a month count \<open>n\<close> with \<open>max n 0 < M\<close>, the windows are
  the \<open>n\<close> calendar months \<open>M - 1, M - 2, ..., M - n\<close>, most recent first, each from the
  first to the last day of its month; for any larger \<open>n\<close> the function raises
  \<open>ValueError\<close>, since it steps to a month before year 1. The period queried for a
  window runs from its first day to the first day of the following month. With
  \<open>today = 2024-06-15\<close> and \<open>n = 3\<close> the windows are May, April and March 2024.
\<close>

theorem first_last_day_spec:
  "(valid_date today \<longrightarrow>
      first_last_day_of_last_n_months today n =
        (if int (nat n) < spec_month_number today
         then Inr (map (\<lambda>i. spec_month_window (spec_month_number today - 1 - int i)) [0..<nat n])
         else Inl ValueError))
   \<and> (0 \<le> k \<and> k < 119987 \<longrightarrow>
      time_period (spec_month_window k) =
        Inr (fst (spec_month_window k), fst (spec_month_window (k + 1))))
   \<and> first_last_day_of_last_n_months \<lparr>year = 2024, month = 6, day = 15\<rparr> 3 =
       Inr [(\<lparr>year = 2024, month = 5, day = 1\<rparr>, \<lparr>year = 2024, month = 5, day = 31\<rparr>),
            (\<lparr>year = 2024, month = 4, day = 1\<rparr>, \<lparr>year = 2024, month = 4, day = 30\<rparr>),
            (\<lparr>year = 2024, month = 3, day = 1\<rparr>, \<lparr>year = 2024, month = 3, day = 31\<rparr>)]"
proof (intro conjI impI)
  assume "valid_date today"
  then show "first_last_day_of_last_n_months today n =
        (if int (nat n) < spec_month_number today
         then Inr (map (\<lambda>i. spec_month_window (spec_month_number today - 1 - int i)) [0..<nat n])
         else Inl ValueError)"
    by (rule first_last_day_exact)
next
  assume "0 \<le> k \<and> k < 119987"
  then have "add_day (snd (spec_month_window k)) = Inr (fst (spec_month_window (k + 1)))"
    by (simp add: add_day_last)
  then show "time_period (spec_month_window k) =
        Inr (fst (spec_month_window k), fst (spec_month_window (k + 1)))"
    by (simp add: time_period_def)
next
  show "first_last_day_of_last_n_months \<lparr>year = 2024, month = 6, day = 15\<rparr> 3 =
       Inr [(\<lparr>year = 2024, month = 5, day = 1\<rparr>, \<lparr>year = 2024, month = 5, day = 31\<rparr>),
            (\<lparr>year = 2024, month = 4, day = 1\<rparr>, \<lparr>year = 2024, month = 4, day = 30\<rparr>),
            (\<lparr>year = 2024, month = 3, day = 1\<rparr>, \<lparr>year = 2024, month = 3, day = 31\<rparr>)]"
    by (simp add: first_last_day_of_last_n_months_def first_of_month_def add_months_def sub_day_def
        days_in_month_def is_leap_def numeral_3_eq_3)
qed

theorem first_last_day_spec_witness:
  "valid_date \<lparr>year = 2024, month = 2, day = 29\<rparr>
   \<and> first_last_day_of_last_n_months \<lparr>year = 2024, month = 2, day = 29\<rparr> 2 =
       Inr [(\<lparr>year = 2024, month = 1, day = 1\<rparr>, \<lparr>year = 2024, month = 1, day = 31\<rparr>),
            (\<lparr>year = 2023, month = 12, day = 1\<rparr>, \<lparr>year = 2023, month = 12, day = 31\<rparr>)]
   \<and> time_period (\<lparr>year = 2023, month = 12, day = 1\<rparr>, \<lparr>year = 2023, month = 12, day = 31\<rparr>) =
       Inr (\<lparr>year = 2023, month = 12, day = 1\<rparr>, \<lparr>year = 2024, month = 1, day = 1\<rparr>)"
  using first_last_day_spec [of "\<lparr>year = 2024, month = 2, day = 29\<rparr>" 2 24275]
  by (simp add: valid_date_def days_in_month_def is_leap_def spec_month_number_def
      spec_month_window_def numeral_2_eq_2)

text \<open>
  The claim as stated fails on a month count that reaches before year 1: called on
  2024-06-15 with 24281 months, the function raises instead of returning windows.
\<close>

theorem first_last_day_counterexample:
  "first_last_day_of_last_n_months \<lparr>year = 2024, month = 6, day = 15\<rparr> 24281 = Inl ValueError"
  using first_last_day_exact [of "\<lparr>year = 2024, month = 6, day = 15\<rparr>" 24281]
  by (simp add: valid_date_def days_in_month_def spec_month_number_def)

subsection \<open>Rows of a budget\<close>

lemma mapE_length: "mapE f xs = Inr ys \<Longrightarrow> length ys = length xs"
  by (induction xs arbitrary: ys) (auto split: sum.splits)

lemma flatten_item_length: "length (flatten_item kv) = (if snd kv = None then 0 else 1)"
  by (simp add: flatten_item_def split: option.splits)

lemma concat_flatten_length:
  "length (concat (map flatten_item notifs)) = length (filter (\<lambda>kv. snd kv \<noteq> None) notifs)"
  by (induction notifs) (simp_all add: flatten_item_length)

lemma flatten_notifications_length:
  assumes "flatten_notifications pf notifs = Inr flat"
  shows "length flat = length (filter (\<lambda>kv. snd kv \<noteq> None) notifs)"
proof -
  from assms obtain keys where k: "mapE (sort_key_of pf) (concat (map flatten_item notifs)) = Inr keys"
    and f: "flat = map snd (sort_key fst (zip keys (concat (map flatten_item notifs))))"
    by (auto simp: flatten_notifications_def Let_def split: sum.splits)
  from mapE_length [OF k] f show ?thesis
    by (simp add: concat_flatten_length)
qed

lemma flatten_notifications_set:
  assumes "flatten_notifications pf notifs = Inr flat"
  shows "set flat = set (concat (map flatten_item notifs))"
proof -
  from assms obtain keys where k: "mapE (sort_key_of pf) (concat (map flatten_item notifs)) = Inr keys"
    and f: "flat = map snd (sort_key fst (zip keys (concat (map flatten_item notifs))))"
    by (auto simp: flatten_notifications_def Let_def split: sum.splits)
  have "set flat = snd ` set (zip keys (concat (map flatten_item notifs)))"
    unfolding f by simp
  also have "\<dots> = set (map snd (zip keys (concat (map flatten_item notifs))))"
    by simp
  also have "\<dots> = set (concat (map flatten_item notifs))"
    using mapE_length [OF k] by (simp only: map_snd_zip)
  finally show ?thesis .
qed

lemma foldE_emit_row:
  "foldE (emit_row pf a acc p fp) rows conds =
     (if conds = [] then Inr rows
      else case budget_amount_cell pf (amount (the_budget a)) of
             Inl e \<Rightarrow> Inl e
           | Inr ba \<Rightarrow> Inr (rows @ map (\<lambda>c. budget_row a acc p fp ba (will_trigger pf c fp) c) conds))"
proof (induction conds arbitrary: rows)
  case Nil
  show ?case by simp
next
  case (Cons c cs)
  show ?case
  proof (cases "budget_amount_cell pf (amount (the_budget a))")
    case (Inl e)
    then have "emit_row pf a acc p fp rows c = Inl e"
      by (simp add: emit_row_def)
    then show ?thesis using Inl by simp
  next
    case (Inr ba)
    then have "emit_row pf a acc p fp rows c =
                 Inr (rows @ [budget_row a acc p fp ba (will_trigger pf c fp) c])"
      by (simp add: emit_row_def)
    then show ?thesis using Inr by (simp add: Cons.IH)
  qed
qed

text \<open>What a call of \<open>emit_budget_rows\<close> that returns has appended.\<close>

lemma emit_budget_rows_Inr:
  "emit_budget_rows pf rows a = Inr rows' \<longleftrightarrow>
     (\<exists>flat acc p fp ba.
        flatten_notifications pf (notifications (the_budget a)) = Inr flat
        \<and> accuracy_cell pf (last_val a) (amount (the_budget a)) = Inr acc
        \<and> percent_of_budget pf (last_val a) (amount (the_budget a)) = Inr p
        \<and> percent_of_budget pf (forecast_total a) (amount (the_budget a)) = Inr fp
        \<and> budget_amount_cell pf (amount (the_budget a)) = Inr ba
        \<and> rows' = rows @ map (\<lambda>c. budget_row a acc p fp ba (will_trigger pf c fp) c)
                            (if flat = [] then [None] else map Some flat))"
  unfolding emit_budget_rows_def Let_def foldE_emit_row
  by (auto split: sum.splits)

lemma will_trigger_values: "will_trigger pf cond fp \<in> {''True'', ''False'', []}"
  by (auto simp: will_trigger_def split: option.splits sum.splits)

lemma will_trigger_True:
  "will_trigger pf cond fp = ''True'' \<longleftrightarrow>
     (\<exists>c f t. cond = Some c \<and> startswith (lower (ThresholdType c)) ''forecast''
        \<and> fp \<noteq> PStr [] \<and> py_float pf fp = Inr f
        \<and> py_float pf (ThresholdPercent c) = Inr t \<and> t \<le> f)"
  by (cases cond) (auto simp: will_trigger_def split: sum.splits)

lemma will_trigger_False:
  "will_trigger pf cond fp = ''False'' \<longleftrightarrow>
     (\<exists>c f t. cond = Some c \<and> startswith (lower (ThresholdType c)) ''forecast''
        \<and> fp \<noteq> PStr [] \<and> py_float pf fp = Inr f
        \<and> py_float pf (ThresholdPercent c) = Inr t \<and> f < t)"
  by (cases cond) (auto simp: will_trigger_def split: sum.splits)

lemma forecasted: "startswith (lower ''Forecasted'') ''forecast''"
  by code_simp

lemma ex1: "will_trigger pf (Some (c\<lparr>ThresholdType := ''Forecasted'', ThresholdPercent := PNum 90\<rparr>)) (PNum 95.2) = ''True''"
  by (simp add: will_trigger_def forecasted)

lemma ex2: "will_trigger pf (Some (c\<lparr>ThresholdType := ''Forecasted'', ThresholdPercent := PNum 90\<rparr>)) (PStr []) = []"
  by (simp add: will_trigger_def forecasted)

lemma emit_new_rows:
  assumes "emit_budget_rows pf rows a = Inr rows'"
  obtains flat acc p fp ba where
    "flatten_notifications pf (notifications (the_budget a)) = Inr flat"
    "accuracy_cell pf (last_val a) (amount (the_budget a)) = Inr acc"
    "percent_of_budget pf (last_val a) (amount (the_budget a)) = Inr p"
    "percent_of_budget pf (forecast_total a) (amount (the_budget a)) = Inr fp"
    "budget_amount_cell pf (amount (the_budget a)) = Inr ba"
    "drop (length rows) rows' = map (\<lambda>c. budget_row a acc p fp ba (will_trigger pf c fp) c)
                            (if flat = [] then [None] else map Some flat)"
    "take (length rows) rows' = rows"
  using assms unfolding emit_budget_rows_Inr by auto

lemma emit_will_trigger:
  assumes "emit_budget_rows pf rows a = Inr rows'" and "r \<in> set (drop (length rows) rows')"
  shows "ForecastConditionWillTrigger r = will_trigger pf (Condition r) (ForecastPercentOfBudget r)"
proof -
  from assms(1) obtain flat acc p fp ba where
    d: "drop (length rows) rows' = map (\<lambda>c. budget_row a acc p fp ba (will_trigger pf c fp) c)
                            (if flat = [] then [None] else map Some flat)"
    by (rule emit_new_rows)
  from assms(2) show ?thesis
    unfolding d by (auto simp: budget_row_def)
qed

lemma percent_zero_amount: "percent_of_budget pf v (PNum 0) = Inr (PStr [])"
  by (simp add: percent_of_budget_def split: option.splits)

lemma percent_zero_value: "percent_of_budget pf (Some 0) amt = Inr (PStr [])"
  by (simp add: percent_of_budget_def)

lemma accuracy_zero_amount: "accuracy_cell pf v (PNum 0) = Inr (PStr [])"
  by (simp add: accuracy_cell_def split: option.splits)

lemma will_trigger_empty: "will_trigger pf cond (PStr []) = []"
  by (simp add: will_trigger_def split: option.splits)

lemma budget_amount_zero: "budget_amount_cell pf (PNum 0) = Inr (PNum 0)"
  by (simp add: budget_amount_cell_def py_round_def round_half_even_def)

lemma emit_zero_amount:
  assumes "emit_budget_rows pf rows a = Inr rows'" and "r \<in> set (drop (length rows) rows')"
    and "amount (the_budget a) = PNum 0"
  shows "BudgetAccuracy r = PStr [] \<and> PercentOfBudgetLastMonth r = PStr []
         \<and> ForecastPercentOfBudget r = PStr [] \<and> ForecastConditionWillTrigger r = []
         \<and> BudgetAmount r = PNum 0"
proof -
  from assms(1) obtain flat acc p fp ba where
    f: "accuracy_cell pf (last_val a) (amount (the_budget a)) = Inr acc"
    "percent_of_budget pf (last_val a) (amount (the_budget a)) = Inr p"
    "percent_of_budget pf (forecast_total a) (amount (the_budget a)) = Inr fp"
    "budget_amount_cell pf (amount (the_budget a)) = Inr ba"
    and d: "drop (length rows) rows' = map (\<lambda>c. budget_row a acc p fp ba (will_trigger pf c fp) c)
                            (if flat = [] then [None] else map Some flat)"
    by (rule emit_new_rows)
  from f assms(3) have "acc = PStr []" "p = PStr []" "fp = PStr []" "ba = PNum 0"
    by (simp_all add: percent_zero_amount accuracy_zero_amount budget_amount_zero)
  with assms(2) show ?thesis
    unfolding d by (auto simp: budget_row_def will_trigger_empty)
qed

lemma emit_zero_last:
  assumes "emit_budget_rows pf rows a = Inr rows'" and "r \<in> set (drop (length rows) rows')"
    and "last_val a = Some 0"
  shows "PercentOfBudgetLastMonth r = PStr []"
proof -
  from assms(1) obtain flat acc p fp ba where
    f: "percent_of_budget pf (last_val a) (amount (the_budget a)) = Inr p"
    and d: "drop (length rows) rows' = map (\<lambda>c. budget_row a acc p fp ba (will_trigger pf c fp) c)
                            (if flat = [] then [None] else map Some flat)"
    by (rule emit_new_rows)
  from f assms(3) have "p = PStr []"
    by (simp add: percent_zero_value)
  with assms(2) show ?thesis
    unfolding d by (auto simp: budget_row_def)
qed

lemma emit_zero_forecast:
  assumes "emit_budget_rows pf rows a = Inr rows'" and "r \<in> set (drop (length rows) rows')"
    and "forecast_total a = Some 0"
  shows "ForecastPercentOfBudget r = PStr [] \<and> ForecastConditionWillTrigger r = []"
proof -
  from assms(1) obtain flat acc p fp ba where
    f: "percent_of_budget pf (forecast_total a) (amount (the_budget a)) = Inr fp"
    and d: "drop (length rows) rows' = map (\<lambda>c. budget_row a acc p fp ba (will_trigger pf c fp) c)
                            (if flat = [] then [None] else map Some flat)"
    by (rule emit_new_rows)
  from f assms(3) have "fp = PStr []"
    by (simp add: percent_zero_value)
  with assms(2) show ?thesis
    unfolding d by (auto simp: budget_row_def will_trigger_empty)
qed

lemma emit_zero_amount_returns:
  assumes "amount (the_budget a) = PNum 0"
    and "flatten_notifications pf (notifications (the_budget a)) = Inr flat"
  shows "\<exists>new. emit_budget_rows pf rows a = Inr (rows @ new) \<and> length new = max 1 (length flat)"
  using assms unfolding emit_budget_rows_Inr
  by (cases flat) (auto simp: percent_zero_amount accuracy_zero_amount budget_amount_zero)

lemma emit_count:
  assumes "emit_budget_rows pf rows a = Inr rows'"
  shows "\<exists>flat. flatten_notifications pf (notifications (the_budget a)) = Inr flat
           \<and> length flat = length (filter (\<lambda>kv. snd kv \<noteq> None) (notifications (the_budget a)))
           \<and> length rows' = length rows + max 1 (length flat)
           \<and> take (length rows) rows' = rows
           \<and> map Condition (drop (length rows) rows') = (if flat = [] then [None] else map Some flat)
           \<and> (\<forall>r \<in> set (drop (length rows) rows').
                 BudgetName r = budget_name (the_budget a) \<and> ScopeId r = scope_id a
                 \<and> ScopeType r = scope_type a)"
proof -
  from assms obtain flat acc p fp ba where
    f: "flatten_notifications pf (notifications (the_budget a)) = Inr flat"
    and d: "drop (length rows) rows' = map (\<lambda>c. budget_row a acc p fp ba (will_trigger pf c fp) c)
                            (if flat = [] then [None] else map Some flat)"
    and t: "take (length rows) rows' = rows"
    by (rule emit_new_rows)
  have "rows' = take (length rows) rows' @ drop (length rows) rows'" by simp
  then have "length rows' = length rows + length (drop (length rows) rows')"
    unfolding t by (metis length_append)
  then have len: "length rows' = length rows + max 1 (length flat)"
    unfolding d by (cases flat) simp_all
  have c: "map Condition (drop (length rows) rows') = (if flat = [] then [None] else map Some flat)"
    unfolding d by (simp add: budget_row_def comp_def)
  have b: "\<forall>r \<in> set (drop (length rows) rows').
                 BudgetName r = budget_name (the_budget a) \<and> ScopeId r = scope_id a
                 \<and> ScopeType r = scope_type a"
    unfolding d by (auto simp: budget_row_def)
  from f flatten_notifications_length [OF f] len t c b show ?thesis by blast
qed

lemma foldE_invariant:
  assumes "foldE f s xs = Inr s'" and "I s"
    and "\<And>s x s'. x \<in> set xs \<Longrightarrow> I s \<Longrightarrow> f s x = Inr s' \<Longrightarrow> I s'"
  shows "I s'"
  using assms
proof (induction xs arbitrary: s)
  case Nil
  then show ?case by simp
next
  case (Cons x xs)
  from Cons.prems(1) obtain s1 where s1: "f s x = Inr s1" and rest: "foldE f s1 xs = Inr s'"
    by (auto split: sum.splits)
  have i1: "I s1" using Cons.prems(3) [of x s s1] Cons.prems(2) s1 by simp
  show ?case
  proof (rule Cons.IH [OF rest i1])
    fix y t t'
    assume "y \<in> set xs" "I t" "f t y = Inr t'"
    then show "I t'" using Cons.prems(3) [of y t t'] by simp
  qed
qed

lemma foldE_invariant_prefix:
  assumes "foldE f s xs = Inr s'" and "I pre s"
    and "\<And>p x s s'. x \<in> set xs \<Longrightarrow> (\<exists>q. pre @ xs = p @ x # q) \<Longrightarrow> I p s \<Longrightarrow> f s x = Inr s'
           \<Longrightarrow> I (p @ [x]) s'"
  shows "I (pre @ xs) s'"
  using assms
proof (induction xs arbitrary: s pre)
  case Nil
  then show ?case by simp
next
  case (Cons x xs)
  from Cons.prems(1) obtain s1 where s1: "f s x = Inr s1" and rest: "foldE f s1 xs = Inr s'"
    by (auto split: sum.splits)
  have i1: "I (pre @ [x]) s1"
    using Cons.prems(3) [of x pre s s1] Cons.prems(2) s1 by auto
  have "I ((pre @ [x]) @ xs) s'"
  proof (rule Cons.IH [OF rest i1])
    fix p y t t'
    assume "y \<in> set xs" "\<exists>q. (pre @ [x]) @ xs = p @ y # q" "I p t" "f t y = Inr t'"
    then show "I (p @ [y]) t'"
      using Cons.prems(3) [of y p t t'] by simp
  qed
  then show ?case by simp
qed

lemma foldE_fails:
  assumes "x \<in> set xs" and "\<And>s. \<exists>y. f s x = Inl y"
  shows "\<exists>y. foldE f s xs = Inl y"
  using assms(1)
proof (induction xs arbitrary: s)
  case Nil
  then show ?case by simp
next
  case (Cons z zs)
  show ?case
  proof (cases "f s z")
    case (Inl e)
    then show ?thesis by simp
  next
    case (Inr s1)
    from assms(2) [of s] Inr have "z \<noteq> x" by auto
    with Cons.prems have "x \<in> set zs" by simp
    from Cons.IH [OF this, of s1] Inr show ?thesis by simp
  qed
qed

subsection \<open>Rows of a scope\<close>

lemma emit_rows_append:
  assumes "emit_budget_rows pf rows a = Inr rows'"
  shows "\<exists>new. rows' = rows @ new \<and> new \<noteq> []
           \<and> (\<forall>r \<in> set new. ScopeId r = scope_id a \<and> ScopeType r = scope_type a
                 \<and> BudgetName r = budget_name (the_budget a))"
proof -
  from assms obtain flat acc p fp ba where
    d: "drop (length rows) rows' = map (\<lambda>c. budget_row a acc p fp ba (will_trigger pf c fp) c)
                            (if flat = [] then [None] else map Some flat)"
    and t: "take (length rows) rows' = rows"
    by (rule emit_new_rows)
  have "rows' = take (length rows) rows' @ drop (length rows) rows'" by simp
  then have 1: "rows' = rows @ drop (length rows) rows'" unfolding t .
  have 2: "drop (length rows) rows' \<noteq> []" unfolding d by simp
  have 3: "\<forall>r \<in> set (drop (length rows) rows').
             ScopeId r = scope_id a \<and> ScopeType r = scope_type a
             \<and> BudgetName r = budget_name (the_budget a)"
    unfolding d by (auto simp: budget_row_def)
  from 1 2 3 show ?thesis by blast
qed

lemma emit_all_rows:
  assumes "emit_all pf rows a bs = Inr rows'"
  shows "\<exists>new. rows' = rows @ new \<and> (bs \<noteq> [] \<longrightarrow> new \<noteq> [])
           \<and> (\<forall>r \<in> set new. ScopeId r = scope_id a \<and> ScopeType r = scope_type a
                 \<and> (\<exists>b \<in> set bs. BudgetName r = budget_name b))"
  using assms
proof (induction bs arbitrary: rows)
  case Nil
  then show ?case by (simp add: emit_all_def)
next
  case (Cons b bs)
  from Cons.prems obtain r1 where
    r1: "emit_budget_rows pf rows (a\<lparr>the_budget := b\<rparr>) = Inr r1"
    and rest: "emit_all pf r1 a bs = Inr rows'"
    by (auto simp: emit_all_def split: sum.splits)
  from emit_rows_append [OF r1] obtain new1 where n1: "r1 = rows @ new1" "new1 \<noteq> []"
    "\<forall>r \<in> set new1. ScopeId r = scope_id a \<and> ScopeType r = scope_type a
         \<and> BudgetName r = budget_name b"
    by auto
  from Cons.IH [OF rest] obtain new2 where n2: "rows' = r1 @ new2"
    "\<forall>r \<in> set new2. ScopeId r = scope_id a \<and> ScopeType r = scope_type a
                 \<and> (\<exists>b \<in> set bs. BudgetName r = budget_name b)"
    by blast
  have "rows' = rows @ (new1 @ new2)" using n1(1) n2(1) by simp
  moreover have "new1 @ new2 \<noteq> []" using n1(2) by simp
  moreover have "\<forall>r \<in> set (new1 @ new2). ScopeId r = scope_id a \<and> ScopeType r = scope_type a
                 \<and> (\<exists>b \<in> set (b # bs). BudgetName r = budget_name b)"
    using n1(3) n2(2) by auto
  ultimately show ?case by blast
qed

lemma scope_args_simps [simp]:
  "scope_id (scope_args pf e today n stype scope sname sid rg) = scope"
  "scope_type (scope_args pf e today n stype scope sname sid rg) = stype"
  by (simp_all add: scope_args_def Let_def)

lemma process_mg_rows:
  assumes "process_mg pf e today n rows g = Inr rows'"
  shows "\<exists>new. rows' = rows @ new
           \<and> (\<forall>r \<in> set new. ScopeType r = ''MG'' \<and> budget_bearing e r)"
proof (cases "budgets_or_empty e (''/providers/Microsoft.Management/managementGroups/'' @ managementGroupId g) = []")
  case True
  with assms show ?thesis by (simp add: process_mg_def Let_def)
next
  case False
  with assms have "emit_all pf rows
      (scope_args pf e today n ''MG''
         (''/providers/Microsoft.Management/managementGroups/'' @ managementGroupId g) [] [] [])
      (budgets_or_empty e (''/providers/Microsoft.Management/managementGroups/'' @ managementGroupId g))
      = Inr rows'"
    by (simp add: process_mg_def Let_def)
  from emit_all_rows [OF this] show ?thesis
    by (auto simp: budget_bearing_def)
qed

lemma process_rg_rows:
  assumes "process_rg pf e today n s rows rg = Inr rows'"
  shows "\<exists>new. rows' = rows @ new
           \<and> (\<forall>r \<in> set new. ScopeType r = ''ResourceGroup'' \<and> budget_bearing e r)"
proof (cases "budgets_or_empty e (''/subscriptions/'' @ subscriptionId s @ ''/resourceGroups/'' @ rg) = []")
  case True
  with assms show ?thesis by (simp add: process_rg_def Let_def)
next
  case False
  with assms have "emit_all pf rows
      (scope_args pf e today n ''ResourceGroup''
         (''/subscriptions/'' @ subscriptionId s @ ''/resourceGroups/'' @ rg)
         (displayName s) (subscriptionId s) rg)
      (budgets_or_empty e (''/subscriptions/'' @ subscriptionId s @ ''/resourceGroups/'' @ rg))
      = Inr rows'"
    by (simp add: process_rg_def Let_def)
  from emit_all_rows [OF this] show ?thesis
    by (auto simp: budget_bearing_def)
qed

text \<open>A subscription adds budget rows or one synthetic row, never both.\<close>

lemma process_sub_rows:
  assumes "process_sub pf e today n rep s = Inr rep'"
  shows "mg_rows rep' = mg_rows rep \<and> rg_rows rep' = rg_rows rep
     \<and> (if budgets_or_empty e (''/subscriptions/'' @ subscriptionId s) \<noteq> []
        then sub_nobudget_rows rep' = sub_nobudget_rows rep
             \<and> (\<exists>new. sub_rows rep' = sub_rows rep @ new \<and> new \<noteq> []
                   \<and> (\<forall>r \<in> set new. ScopeType r = ''Subscription'' \<and> budget_bearing e r
                          \<and> ScopeId r = ''/subscriptions/'' @ subscriptionId s))
        else sub_rows rep' = sub_rows rep
             \<and> (\<exists>r. sub_nobudget_rows rep' = sub_nobudget_rows rep @ [r] \<and> synthetic e r
                    \<and> ScopeId r = ''/subscriptions/'' @ subscriptionId s))"
proof (cases "budgets_or_empty e (''/subscriptions/'' @ subscriptionId s) = []")
  case True
  with assms show ?thesis
    by (auto simp: process_sub_def Let_def synthetic_def nobudget_row_def)
next
  case False
  with assms obtain rows where
    ea: "emit_all pf (sub_rows rep)
      (scope_args pf e today n ''Subscription'' (''/subscriptions/'' @ subscriptionId s)
         (displayName s) (subscriptionId s) [])
      (budgets_or_empty e (''/subscriptions/'' @ subscriptionId s)) = Inr rows"
    and rep': "rep' = rep\<lparr>sub_rows := rows\<rparr>"
    by (auto simp: process_sub_def Let_def split: sum.splits)
  from emit_all_rows [OF ea] False rep' show ?thesis
    by (auto simp: budget_bearing_def)
qed

subsection \<open>Discovery\<close>

lemma update_entries: "p \<in> set (AList.update k v al) \<Longrightarrow> p = (k, v) \<or> p \<in> set al"
  by (induction al) (auto split: if_splits)

lemma classify_subs:
  assumes "distinct (map fst (snd acc))" and "\<forall>p \<in> set (snd acc). subscriptionId (snd p) = fst p"
  shows "distinct (map fst (snd (classify it acc)))
         \<and> (\<forall>p \<in> set (snd (classify it acc)). subscriptionId (snd p) = fst p)"
proof -
  have "distinct (map fst (AList.update k v (snd acc)))" for k v
    using assms(1) by (rule distinct_update)
  moreover have "\<forall>p \<in> set (AList.update k \<lparr>subscriptionId = k, displayName = d, tenantId = t\<rparr> (snd acc)).
                   subscriptionId (snd p) = fst p" for k d t
    using assms(2) by (auto dest!: update_entries)
  ultimately show ?thesis
    using assms by (simp add: classify_def Let_def)
qed

lemma fold_classify_subs:
  assumes "distinct (map fst (snd acc))" and "\<forall>p \<in> set (snd acc). subscriptionId (snd p) = fst p"
  shows "distinct (map fst (snd (fold classify items acc)))
         \<and> (\<forall>p \<in> set (snd (fold classify items acc)). subscriptionId (snd p) = fst p)"
  using assms
proof (induction items arbitrary: acc)
  case Nil
  then show ?case by simp
next
  case (Cons it items)
  from classify_subs [OF Cons.prems, of it]
  have a: "distinct (map fst (snd (classify it acc)))"
    and b: "\<forall>p \<in> set (snd (classify it acc)). subscriptionId (snd p) = fst p"
    by simp_all
  from Cons.IH [OF a b] show ?case by simp
qed

lemma descendants_pages_subs:
  assumes "descendants_pages p acc = Inr res"
    and "distinct (map fst (snd acc))" and "\<forall>p \<in> set (snd acc). subscriptionId (snd p) = fst p"
  shows "distinct (map fst (snd res)) \<and> (\<forall>p \<in> set (snd res). subscriptionId (snd p) = fst p)"
  using assms
proof (induction p arbitrary: acc)
  case (PageFail e)
  then show ?case by simp
next
  case (LastPage items)
  from fold_classify_subs [OF LastPage.prems(2,3), of items] LastPage.prems(1)
  show ?case by auto
next
  case (NextPage items rest)
  from fold_classify_subs [OF NextPage.prems(2,3), of items]
  have a: "distinct (map fst (snd (fold classify items acc)))"
    and b: "\<forall>p \<in> set (snd (fold classify items acc)). subscriptionId (snd p) = fst p"
    by simp_all
  from NextPage.prems(1) have "descendants_pages rest (fold classify items acc) = Inr res"
    by simp
  from NextPage.IH [OF this a b] show ?case .
qed

lemma discovered_subs_distinct:
  assumes "list_mgs_and_subs_under_mg e g = Inr (mgs, subs)"
  shows "distinct (map subscriptionId subs)"
proof -
  from assms obtain m s where dp: "descendants_pages (descendants e g) ([], []) = Inr (m, s)"
    and subs: "subs = map snd s"
    by (auto simp: list_mgs_and_subs_under_mg_def Let_def split: sum.splits prod.splits)
  from descendants_pages_subs [OF dp] have d: "distinct (map fst s)"
    and k: "\<forall>p \<in> set s. subscriptionId (snd p) = fst p"
    by simp_all
  have "map subscriptionId subs = map fst s"
    unfolding subs using k by simp
  with d show ?thesis by simp
qed

lemma descendants_pages_fail:
  "descendants_pages p acc = Inl x \<longleftrightarrow> page_failure p = Some x"
  by (induction p arbitrary: acc) auto

lemma resource_group_pages_fail:
  "resource_group_pages p acc = Inl x \<longleftrightarrow> page_failure p = Some x"
  by (induction p arbitrary: acc) auto

lemma discovery_fail:
  "list_mgs_and_subs_under_mg e g = Inl x \<longleftrightarrow> page_failure (descendants e g) = Some x"
proof (cases "descendants_pages (descendants e g) ([], [])")
  case (Inl y)
  then have "page_failure (descendants e g) = Some y"
    by (simp add: descendants_pages_fail)
  with Inl show ?thesis
    by (simp add: list_mgs_and_subs_under_mg_def)
next
  case (Inr res)
  have "page_failure (descendants e g) \<noteq> Some x"
  proof
    assume "page_failure (descendants e g) = Some x"
    then have "descendants_pages (descendants e g) ([], []) = Inl x"
      by (simp add: descendants_pages_fail)
    with Inr show False by simp
  qed
  with Inr show ?thesis
    by (simp add: list_mgs_and_subs_under_mg_def Let_def split: prod.splits)
qed

subsection \<open>Reports\<close>

lemma process_rgs_rows:
  assumes "process_rgs pf e today ar rep s = Inr rep'"
  shows "mg_rows rep' = mg_rows rep \<and> sub_rows rep' = sub_rows rep
         \<and> sub_nobudget_rows rep' = sub_nobudget_rows rep
         \<and> (\<exists>new. rg_rows rep' = rg_rows rep @ new
               \<and> (\<forall>r \<in> set new. ScopeType r = ''ResourceGroup'' \<and> budget_bearing e r))"
proof -
  from assms obtain rgs rows where
    f: "foldE (process_rg pf e today (months ar) s) (rg_rows rep) rgs = Inr rows"
    and rep': "rep' = rep\<lparr>rg_rows := rows\<rparr>"
    by (auto simp: process_rgs_def Let_def split: sum.splits)
  have "\<exists>new. rows = rg_rows rep @ new
               \<and> (\<forall>r \<in> set new. ScopeType r = ''ResourceGroup'' \<and> budget_bearing e r)"
  proof (rule foldE_invariant [OF f])
    show "\<exists>new. rg_rows rep = rg_rows rep @ new
               \<and> (\<forall>r \<in> set new. ScopeType r = ''ResourceGroup'' \<and> budget_bearing e r)"
      by simp
  next
    fix t rg t'
    assume i: "\<exists>new. t = rg_rows rep @ new
               \<and> (\<forall>r \<in> set new. ScopeType r = ''ResourceGroup'' \<and> budget_bearing e r)"
      and st: "process_rg pf e today (months ar) s t rg = Inr t'"
    from i obtain n1 where n1: "t = rg_rows rep @ n1"
      "\<forall>r \<in> set n1. ScopeType r = ''ResourceGroup'' \<and> budget_bearing e r" by blast
    from process_rg_rows [OF st] obtain n2 where n2: "t' = t @ n2"
      "\<forall>r \<in> set n2. ScopeType r = ''ResourceGroup'' \<and> budget_bearing e r" by blast
    have "t' = rg_rows rep @ (n1 @ n2)" using n1(1) n2(1) by simp
    moreover have "\<forall>r \<in> set (n1 @ n2). ScopeType r = ''ResourceGroup'' \<and> budget_bearing e r"
      using n1(2) n2(2) by auto
    ultimately show "\<exists>new. t' = rg_rows rep @ new
               \<and> (\<forall>r \<in> set new. ScopeType r = ''ResourceGroup'' \<and> budget_bearing e r)"
      by blast
  qed
  with rep' show ?thesis by simp
qed

lemma process_subscription_tiers:
  assumes "process_subscription pf e today ar rep s = Inr rep'" and "tiers_ok e rep"
  shows "tiers_ok e rep'"
proof -
  from assms(1) obtain rep1 where
    1: "(if ''sub'' \<in> include_scopes ar then process_sub pf e today (months ar) rep s
         else Inr rep) = Inr rep1"
    and 2: "(if ''rg'' \<in> include_scopes ar then process_rgs pf e today ar rep1 s else Inr rep1)
            = Inr rep'"
    by (auto simp: process_subscription_def split: sum.splits)
  have t1: "tiers_ok e rep1"
  proof (cases "''sub'' \<in> include_scopes ar")
    case True
    with 1 have "process_sub pf e today (months ar) rep s = Inr rep1" by simp
    from process_sub_rows [OF this] assms(2) show ?thesis
      unfolding tiers_ok_def by (auto split: if_splits)
  next
    case False
    with 1 assms(2) show ?thesis by simp
  qed
  show ?thesis
  proof (cases "''rg'' \<in> include_scopes ar")
    case True
    with 2 have "process_rgs pf e today ar rep1 s = Inr rep'" by simp
    from process_rgs_rows [OF this] t1 show ?thesis
      unfolding tiers_ok_def by auto
  next
    case False
    with 2 t1 show ?thesis by simp
  qed
qed

lemma process_subscription_one_each:
  assumes "process_subscription pf e today ar rep s = Inr rep'" and "one_each pre rep"
    and "subscriptionId s \<notin> subscriptionId ` set pre"
  shows "one_each (pre @ [s]) rep'"
proof -
  from assms(1) obtain rep1 where
    1: "(if ''sub'' \<in> include_scopes ar then process_sub pf e today (months ar) rep s
         else Inr rep) = Inr rep1"
    and 2: "(if ''rg'' \<in> include_scopes ar then process_rgs pf e today ar rep1 s else Inr rep1)
            = Inr rep'"
    by (auto simp: process_subscription_def split: sum.splits)
  define sc where "sc = (\<lambda>s :: sub. ''/subscriptions/'' @ subscriptionId s)"
  have fresh: "sc s \<notin> sc ` set pre"
    using assms(3) by (auto simp: sc_def)
  have oe: "one_each p t \<longleftrightarrow>
              ScopeId ` set (sub_nobudget_rows t) \<subseteq> sc ` set p
              \<and> distinct (map ScopeId (sub_nobudget_rows t))" for p t
    by (simp add: one_each_def sc_def)
  from assms(2) have o: "ScopeId ` set (sub_nobudget_rows rep) \<subseteq> sc ` set pre"
    "distinct (map ScopeId (sub_nobudget_rows rep))"
    by (simp_all add: oe)
  have t1: "one_each (pre @ [s]) rep1"
  proof (cases "''sub'' \<in> include_scopes ar")
    case True
    with 1 have ps: "process_sub pf e today (months ar) rep s = Inr rep1" by simp
    show ?thesis
    proof (cases "budgets_or_empty e (''/subscriptions/'' @ subscriptionId s) = []")
      case True
      with process_sub_rows [OF ps] obtain r where
        r: "sub_nobudget_rows rep1 = sub_nobudget_rows rep @ [r]" "ScopeId r = sc s"
        by (auto simp: sc_def)
      from o(1) fresh have "sc s \<notin> ScopeId ` set (sub_nobudget_rows rep)" by blast
      with r o show ?thesis
        unfolding oe by auto
    next
      case False
      with process_sub_rows [OF ps] have "sub_nobudget_rows rep1 = sub_nobudget_rows rep"
        by simp
      with o show ?thesis
        unfolding oe by auto
    qed
  next
    case False
    with 1 assms(2) show ?thesis unfolding one_each_def by auto
  qed
  show ?thesis
  proof (cases "''rg'' \<in> include_scopes ar")
    case True
    with 2 have "process_rgs pf e today ar rep1 s = Inr rep'" by simp
    from process_rgs_rows [OF this] t1 show ?thesis
      unfolding one_each_def by simp
  next
    case False
    with 2 t1 show ?thesis by simp
  qed
qed

lemma main_report:
  assumes "main pf e today ar = Inr rep"
  shows "tiers_ok e rep \<and> distinct (map ScopeId (sub_nobudget_rows rep))"
proof -
  from assms obtain mgs subs mrows where
    disc: "(if ''mg'' \<in> include_scopes ar \<or> ''sub'' \<in> include_scopes ar
               \<or> ''rg'' \<in> include_scopes ar
            then list_mgs_and_subs_under_mg e (management_group_id ar)
            else Inr ([], [])) = Inr (mgs, subs)"
    and mg: "(if ''mg'' \<in> include_scopes ar
                    then foldE (process_mg pf e today (months ar)) [] mgs
                    else Inr []) = Inr mrows"
    and run: "foldE (process_subscription pf e today ar)
                \<lparr>mg_rows = mrows, sub_rows = [], sub_nobudget_rows = [], rg_rows = []\<rparr>
                (if sub_filter ar \<noteq> {}
                 then filter (\<lambda>s. lower (subscriptionId s) \<in> sub_filter ar) subs
                 else subs) = Inr rep"
    by (auto simp: main_def Let_def split: sum.splits prod.splits)
  let ?subs = "if sub_filter ar \<noteq> {}
                 then filter (\<lambda>s. lower (subscriptionId s) \<in> sub_filter ar) subs
                 else subs"
  let ?rep0 = "\<lparr>mg_rows = mrows, sub_rows = [], sub_nobudget_rows = [], rg_rows = []\<rparr>"
  have "distinct (map subscriptionId subs)"
  proof (cases "''mg'' \<in> include_scopes ar \<or> ''sub'' \<in> include_scopes ar
               \<or> ''rg'' \<in> include_scopes ar")
    case True
    with disc have "list_mgs_and_subs_under_mg e (management_group_id ar) = Inr (mgs, subs)"
      by simp
    then show ?thesis by (rule discovered_subs_distinct)
  next
    case False
    with disc show ?thesis by simp
  qed
  then have dist: "distinct (map subscriptionId ?subs)"
    by (simp add: distinct_map_filter)
  have m: "\<forall>r \<in> set mrows. ScopeType r = ''MG'' \<and> budget_bearing e r"
  proof (cases "''mg'' \<in> include_scopes ar")
    case True
    with mg have f: "foldE (process_mg pf e today (months ar)) [] mgs = Inr mrows" by simp
    show ?thesis
    proof (rule foldE_invariant [OF f])
      show "\<forall>r \<in> set []. ScopeType r = ''MG'' \<and> budget_bearing e r" by simp
    next
      fix t g t'
      assume i: "\<forall>r \<in> set t. ScopeType r = ''MG'' \<and> budget_bearing e r"
        and st: "process_mg pf e today (months ar) t g = Inr t'"
      from process_mg_rows [OF st] i
      show "\<forall>r \<in> set t'. ScopeType r = ''MG'' \<and> budget_bearing e r" by auto
    qed
  next
    case False
    with mg show ?thesis by auto
  qed
  have t0: "tiers_ok e ?rep0" using m by (simp add: tiers_ok_def)
  have tiers: "tiers_ok e rep"
    by (rule foldE_invariant [where I = "tiers_ok e", OF run t0])
       (rule process_subscription_tiers)
  have o0: "one_each [] ?rep0" by (simp add: one_each_def)
  have "one_each ([] @ ?subs) rep"
  proof (rule foldE_invariant_prefix [where I = one_each, OF run o0])
    fix p x t t'
    assume x: "x \<in> set ?subs" and sp: "\<exists>q. [] @ ?subs = p @ x # q"
      and i: "one_each p t" and st: "process_subscription pf e today ar t x = Inr t'"
    from sp obtain q where "?subs = p @ x # q" by auto
    with dist have "distinct (map subscriptionId (p @ x # q))" by simp
    then have "subscriptionId x \<notin> subscriptionId ` set p" by auto
    with st i show "one_each (p @ [x]) t'"
      by (rule process_subscription_one_each)
  qed
  with tiers show ?thesis by (simp add: one_each_def)
qed

subsection \<open>Typed budgets always give rows\<close>

lemma mapE_total:
  assumes "\<And>x. x \<in> set xs \<Longrightarrow> \<exists>y. f x = Inr y"
  shows "\<exists>ys. mapE f xs = Inr ys"
  using assms
proof (induction xs)
  case Nil
  show ?case by simp
next
  case (Cons x xs)
  from Cons.prems [of x] obtain y where y: "f x = Inr y" by auto
  from Cons.IH Cons.prems obtain ys where "mapE f xs = Inr ys" by auto
  with y show ?case by simp
qed

lemma typed_float: "typed_value v \<Longrightarrow> \<exists>x. py_float pf (py_or v (PNum 0)) = Inr x"
  by (cases v) (auto simp: typed_value_def py_or_def)

lemma flatten_typed:
  assumes "list_all (\<lambda>kv. case snd kv of None \<Rightarrow> True | Some cfg \<Rightarrow> typed_value (threshold cfg)) notifs"
  shows "\<exists>flat. flatten_notifications pf notifs = Inr flat"
proof -
  have "\<exists>y. sort_key_of pf c = Inr y" if "c \<in> set (concat (map flatten_item notifs))" for c
  proof -
    from that obtain kv where kv: "kv \<in> set notifs" "c \<in> set (flatten_item kv)" by auto
    with assms have "typed_value (ThresholdPercent c)"
      by (auto simp: list_all_iff flatten_item_def split: option.splits)
    from typed_float [OF this, of pf] show ?thesis
      by (auto simp: sort_key_of_def)
  qed
  from mapE_total [of "concat (map flatten_item notifs)" "sort_key_of pf", OF this]
  show ?thesis
    by (auto simp: flatten_notifications_def Let_def)
qed

lemma typed_amount_cells:
  assumes "typed_value amt"
  shows "\<exists>c. accuracy_cell pf lv amt = Inr c" "\<exists>c. percent_of_budget pf v amt = Inr c"
    "\<exists>c. budget_amount_cell pf amt = Inr c"
  using assms
  by (cases amt; cases lv; cases v;
      simp add: typed_value_def accuracy_cell_def percent_of_budget_def budget_amount_cell_def)+

lemma emit_typed:
  assumes "typed_budget (the_budget a)"
  shows "\<exists>new. emit_budget_rows pf rows a = Inr (rows @ new)
          \<and> length new = max 1 (length (filter (\<lambda>kv. snd kv \<noteq> None) (notifications (the_budget a))))"
proof -
  from assms have ta: "typed_value (amount (the_budget a))"
    and tn: "list_all (\<lambda>kv. case snd kv of None \<Rightarrow> True | Some cfg \<Rightarrow> typed_value (threshold cfg))
               (notifications (the_budget a))"
    by (simp_all add: typed_budget_def)
  from flatten_typed [OF tn, of pf] obtain flat where
    f: "flatten_notifications pf (notifications (the_budget a)) = Inr flat" by blast
  from typed_amount_cells [OF ta, of pf] obtain acc p fp ba where
    c: "accuracy_cell pf (last_val a) (amount (the_budget a)) = Inr acc"
    "percent_of_budget pf (last_val a) (amount (the_budget a)) = Inr p"
    "percent_of_budget pf (forecast_total a) (amount (the_budget a)) = Inr fp"
    "budget_amount_cell pf (amount (the_budget a)) = Inr ba"
    by metis
  let ?new = "map (\<lambda>c. budget_row a acc p fp ba (will_trigger pf c fp) c)
                (if flat = [] then [None] else map Some flat)"
  have "emit_budget_rows pf rows a = Inr (rows @ ?new)"
    unfolding emit_budget_rows_Inr using f c by blast
  moreover have "length ?new = max 1 (length flat)"
    by (cases flat) simp_all
  ultimately show ?thesis
    using flatten_notifications_length [OF f] by auto
qed

subsection \<open>Cost series\<close>

lemma month_windows_loop_length:
  "month_windows_loop j c out = Inr ws \<Longrightarrow> length ws = length out + j"
  by (induction j arbitrary: c out) (auto simp: Let_def split: sum.splits)

lemma first_last_day_length:
  "first_last_day_of_last_n_months today n = Inr ws \<Longrightarrow> length ws = nat n"
  by (auto simp: first_last_day_of_last_n_months_def Let_def split: sum.splits
           dest: month_windows_loop_length)

lemma month_cost_length:
  "foldE (month_cost pf e scope) costs periods = Inr costs'
     \<Longrightarrow> length costs' = length costs + length periods"
proof (induction periods arbitrary: costs)
  case Nil
  then show ?case by simp
next
  case (Cons p ps)
  from Cons.prems obtain c1 where c1: "month_cost pf e scope costs p = Inr c1"
    and rest: "foldE (month_cost pf e scope) c1 ps = Inr costs'"
    by (auto split: sum.splits)
  from c1 have "length c1 = length costs + 1"
    by (auto simp: month_cost_def split: sum.splits)
  with Cons.IH [OF rest] show ?case by simp
qed

lemma cost_query_length:
  "cost_query_last_months_scope pf e today scope n = Inr costs \<Longrightarrow> length costs = nat n"
proof -
  assume a: "cost_query_last_months_scope pf e today scope n = Inr costs"
  then obtain periods where p: "first_last_day_of_last_n_months today n = Inr periods"
    and f: "foldE (month_cost pf e scope) [] periods = Inr costs"
    by (auto simp: cost_query_last_months_scope_def split: sum.splits)
  from month_cost_length [OF f] first_last_day_length [OF p] show ?thesis by simp
qed

lemma cost_query_one_fails:
  assumes "first_last_day_of_last_n_months today n = Inr periods"
    and "p \<in> set periods" and "time_period p = Inr tp" and "cost_rows e scope tp = Inl x"
  shows "\<exists>y. cost_query_last_months_scope pf e today scope n = Inl y"
proof -
  have "\<exists>y. month_cost pf e scope costs p = Inl y" for costs
    using assms(3,4) by (simp add: month_cost_def)
  from foldE_fails [of p periods "month_cost pf e scope", OF assms(2) this]
  show ?thesis
    using assms(1) by (simp add: cost_query_last_months_scope_def)
qed

lemma monthly_none:
  assumes "cost_query_last_months_scope pf e today scope n = Inl y"
  shows "monthly_or_none pf e today scope n = replicate (nat n) None"
    and "last_month (monthly_or_none pf e today scope n) = None"
    and "prev_two_months (monthly_or_none pf e today scope n) = []"
proof -
  show m: "monthly_or_none pf e today scope n = replicate (nat n) None"
    using assms by (simp add: monthly_or_none_def)
  show "last_month (monthly_or_none pf e today scope n) = None"
    unfolding m by (cases "nat n") (simp_all add: last_month_def)
  have "set (take 2 (drop 1 (replicate (nat n) (None :: real option)))) \<subseteq> {None}"
    by (auto dest: in_set_takeD in_set_dropD)
  then have "concat (map (\<lambda>c. case c of None \<Rightarrow> [] | Some v \<Rightarrow> [v])
               (take 2 (drop 1 (replicate (nat n) (None :: real option))))) = []"
    by (auto split: option.splits)
  then show "prev_two_months (monthly_or_none pf e today scope n) = []"
    unfolding m prev_two_months_def .
qed

lemma monthly_some:
  assumes "cost_query_last_months_scope pf e today scope n = Inr costs"
  shows "monthly_or_none pf e today scope n = map Some costs" and "length costs = nat n"
  using assms cost_query_length [OF assms] by (simp_all add: monthly_or_none_def)

subsection \<open>What the run reads of the resource group listing\<close>

lemma same_costs:
  assumes "budgets e1 = budgets e2" "cost_rows e1 = cost_rows e2" "forecast e1 = forecast e2"
  shows "budgets_or_empty e1 = budgets_or_empty e2"
    and "scope_args pf e1 = scope_args pf e2"
proof -
  show "budgets_or_empty e1 = budgets_or_empty e2"
    using assms(1) by (intro ext) (simp add: budgets_or_empty_def list_budgets_at_scope_def)
  have m: "month_cost pf e1 = month_cost pf e2"
    by (intro ext) (simp add: month_cost_def assms(2) cong: sum.case_cong)
  have "monthly_or_none pf e1 = monthly_or_none pf e2"
    by (intro ext) (simp add: monthly_or_none_def cost_query_last_months_scope_def m
          cong: sum.case_cong)
  moreover have "forecast_or_none e1 = forecast_or_none e2"
    using assms(3)
    by (intro ext) (simp add: forecast_or_none_def cost_forecast_current_month_scope_def)
  ultimately show "scope_args pf e1 = scope_args pf e2"
    by (intro ext) (simp add: scope_args_def)
qed

lemma same_scopes:
  assumes "budgets e1 = budgets e2" "cost_rows e1 = cost_rows e2" "forecast e1 = forecast e2"
  shows "process_mg pf e1 = process_mg pf e2"
    and "process_sub pf e1 = process_sub pf e2"
    and "process_rg pf e1 = process_rg pf e2"
  by (intro ext, simp add: process_mg_def process_sub_def process_rg_def same_costs [OF assms]
        cong: sum.case_cong if_cong)+

lemma same_run:
  assumes "descendants e1 = descendants e2"
    and "budgets e1 = budgets e2" "cost_rows e1 = cost_rows e2" "forecast e1 = forecast e2"
    and "\<And>sid. (case list_resource_groups e1 sid of Inl x \<Rightarrow> [] | Inr rgs \<Rightarrow> rgs)
              = (case list_resource_groups e2 sid of Inl x \<Rightarrow> [] | Inr rgs \<Rightarrow> rgs)"
  shows "main pf e1 today ar = main pf e2 today ar"
proof -
  note s = same_scopes [OF assms(2-4), of pf]
  have rgs: "(case list_resource_groups e sid of
                   Inl x \<Rightarrow> []
                 | Inr rgs \<Rightarrow>
                     if rg_filter ar \<noteq> {} then filter (\<lambda>rg. lower rg \<in> rg_filter ar) rgs
                     else rgs)
           = (let rgs = (case list_resource_groups e sid of Inl x \<Rightarrow> [] | Inr rgs \<Rightarrow> rgs)
              in if rg_filter ar \<noteq> {} then filter (\<lambda>rg. lower rg \<in> rg_filter ar) rgs
                 else rgs)" for e sid
    by (simp split: sum.splits)
  have "process_rgs pf e1 today ar = process_rgs pf e2 today ar"
    by (intro ext) (simp add: process_rgs_def rgs assms(5) s del: Let_def cong: sum.case_cong)
  then have "process_subscription pf e1 today ar = process_subscription pf e2 today ar"
    by (intro ext) (simp add: process_subscription_def s cong: sum.case_cong if_cong)
  moreover have "list_mgs_and_subs_under_mg e1 = list_mgs_and_subs_under_mg e2"
    using assms(1) by (intro ext) (simp add: list_mgs_and_subs_under_mg_def)
  ultimately show ?thesis
    by (simp add: main_def s cong: sum.case_cong if_cong)
qed

lemma failed_listing_is_empty:
  assumes "page_failure p = Some x"
  shows "main pf (e\<lparr>resource_groups := (resource_groups e)(sid := p)\<rparr>) today ar
       = main pf (e\<lparr>resource_groups := (resource_groups e)(sid := LastPage [])\<rparr>) today ar"
proof (rule same_run)
  fix sid'
  have "resource_group_pages p [] = Inl x"
    using assms by (simp add: resource_group_pages_fail)
  then show "(case list_resource_groups (e\<lparr>resource_groups := (resource_groups e)(sid := p)\<rparr>) sid' of
               Inl x \<Rightarrow> [] | Inr rgs \<Rightarrow> rgs)
           = (case list_resource_groups
                     (e\<lparr>resource_groups := (resource_groups e)(sid := LastPage [])\<rparr>) sid' of
               Inl x \<Rightarrow> [] | Inr rgs \<Rightarrow> rgs)"
    by (simp add: list_resource_groups_def)
qed simp_all

lemma discovery_failure_aborts:
  assumes "''mg'' \<in> include_scopes ar \<or> ''sub'' \<in> include_scopes ar \<or> ''rg'' \<in> include_scopes ar"
    and "page_failure (descendants e (management_group_id ar)) = Some x"
  shows "main pf e today ar = Inl x"
proof -
  from assms(2) have "list_mgs_and_subs_under_mg e (management_group_id ar) = Inl x"
    by (simp add: discovery_fail)
  with assms(1) show ?thesis
    by (simp add: main_def)
qed

subsection \<open>The rows a scope is due\<close>

lemma const_map: "(\<And>x. x \<in> set xs \<Longrightarrow> f x = k) \<Longrightarrow> map f xs = replicate (length xs) k"
  by (induction xs) auto

lemma emit_keys:
  assumes "emit_budget_rows pf rows a = Inr rows'"
  shows "\<exists>new. rows' = rows @ new
           \<and> map row_key new = replicate (rows_per_budget (the_budget a))
                                  (scope_type a, scope_id a, budget_name (the_budget a))"
proof -
  let ?new = "drop (length rows) rows'"
  from emit_count [OF assms] obtain flat where
    c: "flatten_notifications pf (notifications (the_budget a)) = Inr flat
           \<and> length flat = length (filter (\<lambda>kv. snd kv \<noteq> None) (notifications (the_budget a)))
           \<and> length rows' = length rows + max 1 (length flat)
           \<and> take (length rows) rows' = rows
           \<and> map Condition (drop (length rows) rows') = (if flat = [] then [None] else map Some flat)
           \<and> (\<forall>r \<in> set (drop (length rows) rows').
                 BudgetName r = budget_name (the_budget a) \<and> ScopeId r = scope_id a
                 \<and> ScopeType r = scope_type a)" ..
  from c have f: "length flat = length (filter (\<lambda>kv. snd kv \<noteq> None) (notifications (the_budget a)))"
    and len: "length rows' = length rows + max 1 (length flat)"
    and t: "take (length rows) rows' = rows"
    and k: "\<forall>r \<in> set ?new. BudgetName r = budget_name (the_budget a) \<and> ScopeId r = scope_id a
               \<and> ScopeType r = scope_type a"
    by blast+
  have "rows' = take (length rows) rows' @ ?new" by simp
  then have 1: "rows' = rows @ ?new" unfolding t .
  have 2: "length ?new = rows_per_budget (the_budget a)"
    using len f by (simp add: rows_per_budget_def)
  have "map row_key ?new
          = replicate (length ?new) (scope_type a, scope_id a, budget_name (the_budget a))"
    by (rule const_map) (use k in \<open>simp add: row_key_def\<close>)
  then have 3: "map row_key ?new
          = replicate (rows_per_budget (the_budget a))
              (scope_type a, scope_id a, budget_name (the_budget a))"
    unfolding 2 .
  from 1 3 show ?thesis by blast
qed

lemma emit_all_keys:
  assumes "emit_all pf rows a bs = Inr rows'"
  shows "\<exists>new. rows' = rows @ new
           \<and> map row_key new
               = concat (map (\<lambda>b. replicate (rows_per_budget b) (scope_type a, scope_id a, budget_name b))
                           bs)"
  using assms
proof (induction bs arbitrary: rows)
  case Nil
  then show ?case by (simp add: emit_all_def)
next
  case (Cons b bs)
  from Cons.prems obtain r1 where
    r1: "emit_budget_rows pf rows (a\<lparr>the_budget := b\<rparr>) = Inr r1"
    and rest: "emit_all pf r1 a bs = Inr rows'"
    by (auto simp: emit_all_def split: sum.splits)
  from emit_keys [OF r1] obtain new1 where n1: "r1 = rows @ new1"
    "map row_key new1 = replicate (rows_per_budget b) (scope_type a, scope_id a, budget_name b)"
    by auto
  from Cons.IH [OF rest] obtain new2 where n2: "rows' = r1 @ new2"
    "map row_key new2
       = concat (map (\<lambda>b. replicate (rows_per_budget b) (scope_type a, scope_id a, budget_name b)) bs)"
    by blast
  have "rows' = rows @ (new1 @ new2)" using n1(1) n2(1) by simp
  moreover have "map row_key (new1 @ new2)
       = concat (map (\<lambda>b. replicate (rows_per_budget b) (scope_type a, scope_id a, budget_name b))
                   (b # bs))"
    using n1(2) n2(2) by simp
  ultimately show ?case by blast
qed

lemma process_mg_keys:
  assumes "process_mg pf e today n rows g = Inr rows'"
  shows "\<exists>new. rows' = rows @ new \<and> map row_key new = scope_keys e ''MG'' (mg_scope g)"
proof (cases "budgets_or_empty e (mg_scope g) = []")
  case True
  with assms show ?thesis by (simp add: process_mg_def Let_def mg_scope_def scope_keys_def)
next
  case False
  with assms have "emit_all pf rows (scope_args pf e today n ''MG'' (mg_scope g) [] [] [])
                     (budgets_or_empty e (mg_scope g)) = Inr rows'"
    by (simp add: process_mg_def Let_def mg_scope_def)
  from emit_all_keys [OF this] show ?thesis
    by (simp add: scope_keys_def)
qed

lemma process_rg_keys:
  assumes "process_rg pf e today n s rows rg = Inr rows'"
  shows "\<exists>new. rows' = rows @ new
           \<and> map row_key new = scope_keys e ''ResourceGroup'' (rg_scope s rg)"
proof (cases "budgets_or_empty e (rg_scope s rg) = []")
  case True
  with assms show ?thesis by (simp add: process_rg_def Let_def rg_scope_def scope_keys_def)
next
  case False
  with assms have "emit_all pf rows
                     (scope_args pf e today n ''ResourceGroup'' (rg_scope s rg) (displayName s)
                        (subscriptionId s) rg)
                     (budgets_or_empty e (rg_scope s rg)) = Inr rows'"
    by (simp add: process_rg_def Let_def rg_scope_def)
  from emit_all_keys [OF this] show ?thesis
    by (simp add: scope_keys_def)
qed

lemma process_sub_keys:
  assumes "process_sub pf e today n rep s = Inr rep'"
  shows "\<exists>new. sub_rows rep' = sub_rows rep @ new
           \<and> map row_key new = scope_keys e ''Subscription'' (sub_scope s)"
    and "\<exists>new. sub_nobudget_rows rep' = sub_nobudget_rows rep @ new
           \<and> map ScopeId new = (if budgets_or_empty e (sub_scope s) = [] then [sub_scope s] else [])"
proof -
  have both: "(\<exists>new. sub_rows rep' = sub_rows rep @ new
           \<and> map row_key new = scope_keys e ''Subscription'' (sub_scope s))
    \<and> (\<exists>new. sub_nobudget_rows rep' = sub_nobudget_rows rep @ new
           \<and> map ScopeId new = (if budgets_or_empty e (sub_scope s) = [] then [sub_scope s] else []))"
  proof (cases "budgets_or_empty e (sub_scope s) = []")
    case True
    with assms have "rep' = rep\<lparr>sub_nobudget_rows := sub_nobudget_rows rep
        @ [nobudget_row (scope_args pf e today n ''Subscription'' (sub_scope s) (displayName s)
             (subscriptionId s) [])]\<rparr>"
      by (simp add: process_sub_def Let_def sub_scope_def)
    with True show ?thesis
      by (simp add: scope_keys_def nobudget_row_def)
  next
    case False
    with assms obtain rows where
      ea: "emit_all pf (sub_rows rep)
             (scope_args pf e today n ''Subscription'' (sub_scope s) (displayName s)
                (subscriptionId s) [])
             (budgets_or_empty e (sub_scope s)) = Inr rows"
      and rep': "rep' = rep\<lparr>sub_rows := rows\<rparr>"
      by (auto simp: process_sub_def Let_def sub_scope_def split: sum.splits)
    from emit_all_keys [OF ea] False rep' show ?thesis
      by (simp add: scope_keys_def)
  qed
  from both show "\<exists>new. sub_rows rep' = sub_rows rep @ new
           \<and> map row_key new = scope_keys e ''Subscription'' (sub_scope s)"
    by (rule conjunct1)
  from both show "\<exists>new. sub_nobudget_rows rep' = sub_nobudget_rows rep @ new
           \<and> map ScopeId new = (if budgets_or_empty e (sub_scope s) = [] then [sub_scope s] else [])"
    by (rule conjunct2)
qed

text \<open>A loop whose every step appends a block determined by its element.\<close>

lemma foldE_blocks:
  assumes "foldE f s xs = Inr s'"
    and "\<And>t x t'. x \<in> set xs \<Longrightarrow> f t x = Inr t'
           \<Longrightarrow> \<exists>new. sel t' = sel t @ new \<and> map k new = blk x"
  shows "\<exists>new. sel s' = sel s @ new \<and> map k new = concat (map blk xs)"
  using assms
proof (induction xs arbitrary: s)
  case Nil
  then show ?case by simp
next
  case (Cons x xs)
  from Cons.prems(1) obtain s1 where s1: "f s x = Inr s1" and rest: "foldE f s1 xs = Inr s'"
    by (auto split: sum.splits)
  from Cons.prems(2) [of x s s1] s1 obtain new1 where
    n1: "sel s1 = sel s @ new1" "map k new1 = blk x" by auto
  have "\<exists>new. sel s' = sel s1 @ new \<and> map k new = concat (map blk xs)"
  proof (rule Cons.IH [OF rest])
    fix t y t'
    assume "y \<in> set xs" "f t y = Inr t'"
    then show "\<exists>new. sel t' = sel t @ new \<and> map k new = blk y"
      using Cons.prems(2) [of y t t'] by simp
  qed
  then obtain new2 where n2: "sel s' = sel s1 @ new2" "map k new2 = concat (map blk xs)"
    by blast
  have "sel s' = sel s @ (new1 @ new2)" using n1(1) n2(1) by simp
  moreover have "map k (new1 @ new2) = concat (map blk (x # xs))" using n1(2) n2(2) by simp
  ultimately show ?case by blast
qed

lemma process_rgs_keys:
  assumes "process_rgs pf e today ar rep s = Inr rep'"
  shows "\<exists>new. rg_rows rep' = rg_rows rep @ new
           \<and> map row_key new
               = concat (map (\<lambda>rg. scope_keys e ''ResourceGroup'' (rg_scope s rg)) (listed_rgs e ar s))"
proof -
  from assms obtain rows where
    f: "foldE (process_rg pf e today (months ar) s) (rg_rows rep) (listed_rgs e ar s) = Inr rows"
    and rep': "rep' = rep\<lparr>rg_rows := rows\<rparr>"
    by (auto simp: process_rgs_def listed_rgs_def Let_def split: sum.splits)
  have "\<exists>new. (\<lambda>t. t) rows = (\<lambda>t. t) (rg_rows rep) @ new
           \<and> map row_key new
               = concat (map (\<lambda>rg. scope_keys e ''ResourceGroup'' (rg_scope s rg)) (listed_rgs e ar s))"
    by (rule foldE_blocks [OF f]) (rule process_rg_keys)
  with rep' show ?thesis by simp
qed

lemma process_subscription_keys:
  assumes "process_subscription pf e today ar rep s = Inr rep'"
  shows "mg_rows rep' = mg_rows rep"
    and "\<exists>new. sub_rows rep' = sub_rows rep @ new
           \<and> map row_key new = (if ''sub'' \<in> include_scopes ar
                                  then scope_keys e ''Subscription'' (sub_scope s) else [])"
    and "\<exists>new. sub_nobudget_rows rep' = sub_nobudget_rows rep @ new
           \<and> map ScopeId new = (if ''sub'' \<in> include_scopes ar \<and> budgets_or_empty e (sub_scope s) = []
                                 then [sub_scope s] else [])"
    and "\<exists>new. rg_rows rep' = rg_rows rep @ new
           \<and> map row_key new
               = (if ''rg'' \<in> include_scopes ar
                  then concat (map (\<lambda>rg. scope_keys e ''ResourceGroup'' (rg_scope s rg))
                                 (listed_rgs e ar s))
                  else [])"
proof -
  from assms obtain rep1 where
    1: "(if ''sub'' \<in> include_scopes ar then process_sub pf e today (months ar) rep s
         else Inr rep) = Inr rep1"
    and 2: "(if ''rg'' \<in> include_scopes ar then process_rgs pf e today ar rep1 s else Inr rep1)
            = Inr rep'"
    by (auto simp: process_subscription_def split: sum.splits)
  have a: "mg_rows rep1 = mg_rows rep \<and> rg_rows rep1 = rg_rows rep
     \<and> (\<exists>new. sub_rows rep1 = sub_rows rep @ new
           \<and> map row_key new = (if ''sub'' \<in> include_scopes ar
                                  then scope_keys e ''Subscription'' (sub_scope s) else []))
     \<and> (\<exists>new. sub_nobudget_rows rep1 = sub_nobudget_rows rep @ new
           \<and> map ScopeId new = (if ''sub'' \<in> include_scopes ar \<and> budgets_or_empty e (sub_scope s) = []
                                 then [sub_scope s] else []))"
  proof (cases "''sub'' \<in> include_scopes ar")
    case True
    with 1 have ps: "process_sub pf e today (months ar) rep s = Inr rep1" by simp
    from process_sub_rows [OF ps] process_sub_keys [OF ps] True show ?thesis by simp
  next
    case False
    with 1 show ?thesis by simp
  qed
  have b: "mg_rows rep' = mg_rows rep1 \<and> sub_rows rep' = sub_rows rep1
     \<and> sub_nobudget_rows rep' = sub_nobudget_rows rep1
     \<and> (\<exists>new. rg_rows rep' = rg_rows rep1 @ new
           \<and> map row_key new
               = (if ''rg'' \<in> include_scopes ar
                  then concat (map (\<lambda>rg. scope_keys e ''ResourceGroup'' (rg_scope s rg))
                                 (listed_rgs e ar s))
                  else []))"
  proof (cases "''rg'' \<in> include_scopes ar")
    case True
    with 2 have pr: "process_rgs pf e today ar rep1 s = Inr rep'" by simp
    from process_rgs_rows [OF pr] process_rgs_keys [OF pr] True show ?thesis by simp
  next
    case False
    with 2 show ?thesis by simp
  qed
  from a b show "mg_rows rep' = mg_rows rep" by simp
  from a b show "\<exists>new. sub_rows rep' = sub_rows rep @ new
           \<and> map row_key new = (if ''sub'' \<in> include_scopes ar
                                  then scope_keys e ''Subscription'' (sub_scope s) else [])"
    by simp
  from a b show "\<exists>new. sub_nobudget_rows rep' = sub_nobudget_rows rep @ new
           \<and> map ScopeId new = (if ''sub'' \<in> include_scopes ar \<and> budgets_or_empty e (sub_scope s) = []
                                 then [sub_scope s] else [])"
    by simp
  from a b show "\<exists>new. rg_rows rep' = rg_rows rep @ new
           \<and> map row_key new
               = (if ''rg'' \<in> include_scopes ar
                  then concat (map (\<lambda>rg. scope_keys e ''ResourceGroup'' (rg_scope s rg))
                                 (listed_rgs e ar s))
                  else [])"
    by simp
qed

lemma concat_map_if: "concat (map (\<lambda>x. if c then f x else []) xs) = (if c then concat (map f xs) else [])"
  by (induction xs) auto

lemma concat_map_filter:
  "concat (map (\<lambda>x. if c \<and> p x then [f x] else []) xs) = (if c then map f (filter p xs) else [])"
  by (induction xs) auto

text \<open>The rows of a run, sheet by sheet.\<close>

lemma main_keys:
  assumes "main pf e today ar = Inr rep"
  shows "\<exists>mgs subs. discovered e ar = Inr (mgs, subs)
     \<and> map row_key (mg_rows rep)
         = (if ''mg'' \<in> include_scopes ar
            then concat (map (\<lambda>g. scope_keys e ''MG'' (mg_scope g)) mgs) else [])
     \<and> map row_key (sub_rows rep)
         = (if ''sub'' \<in> include_scopes ar
            then concat (map (\<lambda>s. scope_keys e ''Subscription'' (sub_scope s)) (selected_subs ar subs))
            else [])
     \<and> map ScopeId (sub_nobudget_rows rep)
         = (if ''sub'' \<in> include_scopes ar
            then map sub_scope (filter (\<lambda>s. budgets_or_empty e (sub_scope s) = [])
                                  (selected_subs ar subs))
            else [])
     \<and> map row_key (rg_rows rep)
         = (if ''rg'' \<in> include_scopes ar
            then concat (map (\<lambda>s. concat (map (\<lambda>rg. scope_keys e ''ResourceGroup'' (rg_scope s rg))
                                            (listed_rgs e ar s)))
                           (selected_subs ar subs))
            else [])"
proof -
  from assms obtain mgs subs mrows where
    disc: "discovered e ar = Inr (mgs, subs)"
    and mg: "(if ''mg'' \<in> include_scopes ar
                    then foldE (process_mg pf e today (months ar)) [] mgs
                    else Inr []) = Inr mrows"
    and run: "foldE (process_subscription pf e today ar)
                \<lparr>mg_rows = mrows, sub_rows = [], sub_nobudget_rows = [], rg_rows = []\<rparr>
                (selected_subs ar subs) = Inr rep"
    by (auto simp: main_def discovered_def selected_subs_def Let_def split: sum.splits prod.splits)
  let ?rep0 = "\<lparr>mg_rows = mrows, sub_rows = [], sub_nobudget_rows = [], rg_rows = []\<rparr>"
  have m: "map row_key mrows
         = (if ''mg'' \<in> include_scopes ar
            then concat (map (\<lambda>g. scope_keys e ''MG'' (mg_scope g)) mgs) else [])"
  proof (cases "''mg'' \<in> include_scopes ar")
    case True
    with mg have f: "foldE (process_mg pf e today (months ar)) [] mgs = Inr mrows" by simp
    have "\<exists>new. (\<lambda>t. t) mrows = (\<lambda>t. t) [] @ new
            \<and> map row_key new = concat (map (\<lambda>g. scope_keys e ''MG'' (mg_scope g)) mgs)"
      by (rule foldE_blocks [OF f]) (rule process_mg_keys)
    with True show ?thesis by simp
  next
    case False
    with mg show ?thesis by auto
  qed
  have "mg_rows rep = mg_rows ?rep0"
    by (rule foldE_invariant [where I = "\<lambda>t. mg_rows t = mg_rows ?rep0", OF run])
       (simp_all add: process_subscription_keys(1))
  with m have 1: "map row_key (mg_rows rep)
         = (if ''mg'' \<in> include_scopes ar
            then concat (map (\<lambda>g. scope_keys e ''MG'' (mg_scope g)) mgs) else [])"
    by simp
  have "\<exists>new. sub_rows rep = sub_rows ?rep0 @ new
          \<and> map row_key new
              = concat (map (\<lambda>s. if ''sub'' \<in> include_scopes ar
                                  then scope_keys e ''Subscription'' (sub_scope s) else [])
                          (selected_subs ar subs))"
    by (rule foldE_blocks [OF run]) (rule process_subscription_keys(2))
  then have 2: "map row_key (sub_rows rep)
         = (if ''sub'' \<in> include_scopes ar
            then concat (map (\<lambda>s. scope_keys e ''Subscription'' (sub_scope s)) (selected_subs ar subs))
            else [])"
    by (auto simp: concat_map_if)
  have "\<exists>new. sub_nobudget_rows rep = sub_nobudget_rows ?rep0 @ new
          \<and> map ScopeId new
              = concat (map (\<lambda>s. if ''sub'' \<in> include_scopes ar \<and> budgets_or_empty e (sub_scope s) = []
                                  then [sub_scope s] else [])
                          (selected_subs ar subs))"
    by (rule foldE_blocks [OF run]) (rule process_subscription_keys(3))
  then have 3: "map ScopeId (sub_nobudget_rows rep)
         = (if ''sub'' \<in> include_scopes ar
            then map sub_scope (filter (\<lambda>s. budgets_or_empty e (sub_scope s) = [])
                                  (selected_subs ar subs))
            else [])"
    by (auto simp: concat_map_filter)
  have "\<exists>new. rg_rows rep = rg_rows ?rep0 @ new
          \<and> map row_key new
              = concat (map (\<lambda>s. if ''rg'' \<in> include_scopes ar
                                  then concat (map (\<lambda>rg. scope_keys e ''ResourceGroup'' (rg_scope s rg))
                                                 (listed_rgs e ar s))
                                  else [])
                          (selected_subs ar subs))"
    by (rule foldE_blocks [OF run]) (rule process_subscription_keys(4))
  then have 4: "map row_key (rg_rows rep)
         = (if ''rg'' \<in> include_scopes ar
            then concat (map (\<lambda>s. concat (map (\<lambda>rg. scope_keys e ''ResourceGroup'' (rg_scope s rg))
                                            (listed_rgs e ar s)))
                           (selected_subs ar subs))
            else [])"
    by (auto simp: concat_map_if)
  from disc 1 2 3 4 show ?thesis by blast
qed

subsection \<open>A run over typed budgets returns\<close>

lemma foldE_total:
  assumes "\<And>s x. x \<in> set xs \<Longrightarrow> \<exists>s'. f s x = Inr s'"
  shows "\<exists>s'. foldE f s xs = Inr s'"
  using assms
proof (induction xs arbitrary: s)
  case Nil
  show ?case by simp
next
  case (Cons x xs)
  from Cons.prems [of x s] obtain s1 where s1: "f s x = Inr s1" by auto
  from Cons.IH [of s1] Cons.prems obtain s' where "foldE f s1 xs = Inr s'" by auto
  with s1 show ?case by simp
qed

lemma emit_all_total:
  assumes "list_all typed_budget bs"
  shows "\<exists>rows'. emit_all pf rows a bs = Inr rows'"
  unfolding emit_all_def
proof (rule foldE_total)
  fix t b
  assume "b \<in> set bs"
  with assms have "typed_budget (the_budget (a\<lparr>the_budget := b\<rparr>))"
    by (simp add: list_all_iff)
  from emit_typed [OF this, of pf t]
  show "\<exists>s'. emit_budget_rows pf t (a\<lparr>the_budget := b\<rparr>) = Inr s'" by blast
qed

lemma process_subscription_total:
  assumes "\<And>scope. list_all typed_budget (budgets_or_empty e scope)"
  shows "\<exists>rep'. process_subscription pf e today ar rep s = Inr rep'"
proof -
  have sub: "\<exists>rep'. process_sub pf e today n t s = Inr rep'" for n t
    using emit_all_total [OF assms, of pf "sub_rows t"
        "scope_args pf e today n ''Subscription'' (''/subscriptions/'' @ subscriptionId s)
           (displayName s) (subscriptionId s) []" "''/subscriptions/'' @ subscriptionId s"]
    by (auto simp: process_sub_def Let_def)
  have rg: "\<exists>rows'. process_rg pf e today n s rows rg = Inr rows'" for n rows rg
    using emit_all_total [OF assms, of pf rows
        "scope_args pf e today n ''ResourceGroup''
           (''/subscriptions/'' @ subscriptionId s @ ''/resourceGroups/'' @ rg)
           (displayName s) (subscriptionId s) rg"
        "''/subscriptions/'' @ subscriptionId s @ ''/resourceGroups/'' @ rg"]
    by (auto simp: process_rg_def Let_def)
  have rgs: "\<exists>rep'. process_rgs pf e today ar t s = Inr rep'" for t
  proof -
    from foldE_total [of "listed_rgs e ar s" "process_rg pf e today (months ar) s" "rg_rows t"] rg
    obtain rows where
      "foldE (process_rg pf e today (months ar) s) (rg_rows t) (listed_rgs e ar s) = Inr rows"
      by blast
    then show ?thesis
      by (simp add: process_rgs_def listed_rgs_def Let_def)
  qed
  show ?thesis
  proof (cases "''sub'' \<in> include_scopes ar")
    case True
    from sub [of "months ar" rep] obtain rep1 where
      "process_sub pf e today (months ar) rep s = Inr rep1" by blast
    with True rgs [of rep1] show ?thesis
      by (auto simp: process_subscription_def)
  next
    case False
    with rgs [of rep] show ?thesis
      by (auto simp: process_subscription_def)
  qed
qed

lemma main_total:
  assumes "discovered e ar = Inr d"
    and "\<And>scope. list_all typed_budget (budgets_or_empty e scope)"
  shows "\<exists>rep. main pf e today ar = Inr rep"
proof -
  obtain mgs subs where d: "d = (mgs, subs)" by (cases d)
  have mg: "\<exists>rows'. process_mg pf e today n rows g = Inr rows'" for n rows g
    using emit_all_total [OF assms(2), of pf rows
        "scope_args pf e today n ''MG''
           (''/providers/Microsoft.Management/managementGroups/'' @ managementGroupId g) [] [] []"
        "''/providers/Microsoft.Management/managementGroups/'' @ managementGroupId g"]
    by (auto simp: process_mg_def Let_def)
  from foldE_total [of mgs "process_mg pf e today (months ar)" "[]"] mg
  obtain mrows0 where m0: "foldE (process_mg pf e today (months ar)) [] mgs = Inr mrows0"
    by blast
  define mrows where "mrows = (if ''mg'' \<in> include_scopes ar then mrows0 else [])"
  have m: "(if ''mg'' \<in> include_scopes ar
            then foldE (process_mg pf e today (months ar)) [] mgs else Inr []) = Inr mrows"
    using m0 by (simp add: mrows_def)
  from foldE_total [of "selected_subs ar subs" "process_subscription pf e today ar"
      "\<lparr>mg_rows = mrows, sub_rows = [], sub_nobudget_rows = [], rg_rows = []\<rparr>"]
    process_subscription_total [OF assms(2)]
  obtain rep where "foldE (process_subscription pf e today ar)
      \<lparr>mg_rows = mrows, sub_rows = [], sub_nobudget_rows = [], rg_rows = []\<rparr>
      (selected_subs ar subs) = Inr rep"
    by blast
  with assms(1) d m have "main pf e today ar = Inr rep"
    by (simp add: main_def discovered_def selected_subs_def Let_def)
  then show ?thesis by blast
qed

subsection \<open>Scenario runs\<close>

lemma forecast_args_emit:
  "emit_budget_rows no_float [] forecast_args =
     Inr [budget_row forecast_args (PNum (py_round (budget_accuracy 1000 800) 4)) (PNum 80)
            (PNum 95.2) (PNum 1000) ''True''
            (Some \<lparr>ConditionKey = ''n1'', Enabled = True, ThresholdType = ''Forecasted'',
                   Operator = ''GreaterThan'', ThresholdPercent = PNum 90,
                   ContactEmails = ''a@example.org'', ContactGroups = [], ContactRoles = []\<rparr>)]"
  by (simp add: emit_budget_rows_def flatten_notifications_def flatten_item_def sort_key_of_def
      py_or_def accuracy_cell_def percent_of_budget_def budget_amount_cell_def emit_row_def
      will_trigger_def forecasted forecast_args_def forecast_budget_def py_round_def
      round_half_even_def Let_def)

lemma zero_amount_emit:
  "\<exists>r. emit_budget_rows no_float []
          (forecast_args\<lparr>the_budget := forecast_budget\<lparr>amount := PNum 0\<rparr>\<rparr>) = Inr [r]"
proof -
  have "typed_budget (the_budget (forecast_args\<lparr>the_budget := forecast_budget\<lparr>amount := PNum 0\<rparr>\<rparr>))"
    by (simp add: typed_budget_def typed_value_def forecast_budget_def)
  from emit_typed [OF this, of no_float "[]"] show ?thesis
    by (auto simp: forecast_budget_def length_Suc_conv)
qed

lemma april_discovery:
  "list_mgs_and_subs_under_mg april_fails ''root'' =
     Inr ([\<lparr>managementGroupId = ''root'', mg_displayName = ''root''\<rparr>],
          [\<lparr>subscriptionId = ''s1'', displayName = ''One'', tenantId = ''t''\<rparr>])"
  by (simp add: list_mgs_and_subs_under_mg_def april_fails_def classify_def
      lower_def lower_char_def endswith_def Let_def)

lemma april_no_budgets: "budgets_or_empty april_fails scope = []"
  by (simp add: budgets_or_empty_def list_budgets_at_scope_def april_fails_def)

lemma april_sub:
  "process_sub no_float april_fails day_2024_06_15 3
       \<lparr>mg_rows = [], sub_rows = [], sub_nobudget_rows = [], rg_rows = []\<rparr>
       \<lparr>subscriptionId = ''s1'', displayName = ''One'', tenantId = ''t''\<rparr> =
     Inr \<lparr>mg_rows = [], sub_rows = [],
          sub_nobudget_rows =
            [nobudget_row (scope_args no_float april_fails day_2024_06_15 3 ''Subscription''
                             ''/subscriptions/s1'' ''One'' ''s1'' [])],
          rg_rows = []\<rparr>"
  by (simp add: process_sub_def april_no_budgets)

lemma april_run:
  "main no_float april_fails day_2024_06_15 args_sub =
     Inr \<lparr>mg_rows = [], sub_rows = [],
          sub_nobudget_rows =
            [nobudget_row (scope_args no_float april_fails day_2024_06_15 3 ''Subscription''
                             ''/subscriptions/s1'' ''One'' ''s1'' [])],
          rg_rows = []\<rparr>"
  by (simp add: main_def args_sub_def april_discovery process_subscription_def april_sub)

lemma june_windows:
  "first_last_day_of_last_n_months day_2024_06_15 3 =
     Inr [(\<lparr>year = 2024, month = 5, day = 1\<rparr>, \<lparr>year = 2024, month = 5, day = 31\<rparr>),
          (\<lparr>year = 2024, month = 4, day = 1\<rparr>, \<lparr>year = 2024, month = 4, day = 30\<rparr>),
          (\<lparr>year = 2024, month = 3, day = 1\<rparr>, \<lparr>year = 2024, month = 3, day = 31\<rparr>)]"
  by (simp add: first_last_day_of_last_n_months_def first_of_month_def add_months_def sub_day_def
      days_in_month_def is_leap_def numeral_3_eq_3 day_2024_06_15_def)

lemma april_monthly:
  "monthly_or_none no_float april_fails day_2024_06_15 ''/subscriptions/s1'' 3 = [None, None, None]"
  by (simp add: monthly_or_none_def cost_query_last_months_scope_def june_windows
      days_in_month_def is_leap_def month_cost_def time_period_def
      add_day_def april_fails_def add_cost_row_def py_or_def py_round_def round_half_even_def
      numeral_3_eq_3)

lemma all_months:
  "cost_query_last_months_scope no_float
      (april_fails\<lparr>cost_rows := (\<lambda>scope tp. Inr [[PNum 100], [PStr ''x''], [PNone]])\<rparr>)
      day_2024_06_15 ''/subscriptions/s1'' 3 = Inr [100, 100, 100]"
  by (simp add: cost_query_last_months_scope_def june_windows
      days_in_month_def is_leap_def month_cost_def time_period_def
      add_day_def add_cost_row_def py_or_def py_round_def round_half_even_def no_float_def)

lemma rg_listing_run:
  "main no_float rg_listing_fails day_2024_06_15 args_rg
     = Inr \<lparr>mg_rows = [], sub_rows = [], sub_nobudget_rows = [], rg_rows = []\<rparr>"
proof -
  have d: "list_mgs_and_subs_under_mg rg_listing_fails ''root'' =
   Inr ([\<lparr>managementGroupId = ''root'', mg_displayName = ''root''\<rparr>],
        [\<lparr>subscriptionId = ''s1'', displayName = ''One'', tenantId = ''t''\<rparr>])"
    by (simp add: list_mgs_and_subs_under_mg_def rg_listing_fails_def april_fails_def classify_def
        lower_def lower_char_def endswith_def Let_def)
  have l: "list_resource_groups rg_listing_fails ''s1'' = Inl (HTTPError 403)"
    by (simp add: list_resource_groups_def rg_listing_fails_def)
  show ?thesis
    by (simp add: main_def args_rg_def d process_subscription_def process_rgs_def l)
qed

lemma emit_costs_shown:
  assumes "emit_budget_rows pf rows a = Inr rows'" and "r \<in> set (drop (length rows) rows')"
  shows "LastMonthCost r = cell (last_val a) \<and> CurrentMonthForecastTotal r = cell (forecast_total a)"
proof -
  from assms(1) obtain flat acc p fp ba where
    d: "drop (length rows) rows' = map (\<lambda>c. budget_row a acc p fp ba (will_trigger pf c fp) c)
                            (if flat = [] then [None] else map Some flat)"
    by (rule emit_new_rows)
  from assms(2) show ?thesis
    unfolding d by (auto simp: budget_row_def)
qed

lemma process_sub_total:
  assumes "\<And>scope. list_all typed_budget (budgets_or_empty e scope)"
  shows "\<exists>rep'. process_sub pf e today n rep s = Inr rep'"
  using emit_all_total [OF assms, of pf "sub_rows rep"
      "scope_args pf e today n ''Subscription'' (''/subscriptions/'' @ subscriptionId s)
         (displayName s) (subscriptionId s) []" "''/subscriptions/'' @ subscriptionId s"]
  by (auto simp: process_sub_def Let_def)

lemma budgeted_discovery:
  "discovered budgeted args_all =
     Inr ([\<lparr>managementGroupId = ''root'', mg_displayName = ''root''\<rparr>],
          [\<lparr>subscriptionId = ''s1'', displayName = ''One'', tenantId = ''t''\<rparr>,
           \<lparr>subscriptionId = ''s2'', displayName = ''Two'', tenantId = ''t''\<rparr>])"
  by (simp add: discovered_def args_all_def list_mgs_and_subs_under_mg_def budgeted_def
      april_fails_def classify_def lower_def lower_char_def endswith_def Let_def)

lemma budgeted_budgets:
  "budgets_or_empty budgeted scope =
     (if scope = ''/providers/Microsoft.Management/managementGroups/root'' then [no_conditions]
      else if scope = ''/subscriptions/s1'' then [forecast_budget, two_conditions]
      else if scope = ''/subscriptions/s1/resourceGroups/rg2'' then [two_conditions]
      else [])"
  by (simp add: budgets_or_empty_def list_budgets_at_scope_def budgeted_def april_fails_def)

lemma budgeted_typed: "list_all typed_budget (budgets_or_empty budgeted scope)"
  by (simp add: budgeted_budgets typed_budget_def typed_value_def no_conditions_def
      two_conditions_def forecast_budget_def)

lemma budgeted_rows_per_budget:
  "rows_per_budget no_conditions = 1" "rows_per_budget forecast_budget = 1"
  "rows_per_budget two_conditions = 2"
  by (simp_all add: rows_per_budget_def no_conditions_def two_conditions_def forecast_budget_def)

lemma budgeted_names:
  "budget_name no_conditions = ''b0''" "budget_name forecast_budget = ''b1''"
  "budget_name two_conditions = ''b2''"
  by (simp_all add: no_conditions_def two_conditions_def forecast_budget_def)

lemma budgeted_scope_keys:
  "scope_keys budgeted ''MG'' ''/providers/Microsoft.Management/managementGroups/root''
     = [(''MG'', ''/providers/Microsoft.Management/managementGroups/root'', ''b0'')]"
  "scope_keys budgeted ''Subscription'' ''/subscriptions/s1''
     = [(''Subscription'', ''/subscriptions/s1'', ''b1''),
        (''Subscription'', ''/subscriptions/s1'', ''b2''),
        (''Subscription'', ''/subscriptions/s1'', ''b2'')]"
  "scope_keys budgeted ''Subscription'' ''/subscriptions/s2'' = []"
  "scope_keys budgeted ''ResourceGroup'' ''/subscriptions/s1/resourceGroups/rg1'' = []"
  "scope_keys budgeted ''ResourceGroup'' ''/subscriptions/s1/resourceGroups/rg2''
     = [(''ResourceGroup'', ''/subscriptions/s1/resourceGroups/rg2'', ''b2''),
        (''ResourceGroup'', ''/subscriptions/s1/resourceGroups/rg2'', ''b2'')]"
  by (simp_all add: scope_keys_def budgeted_budgets budgeted_rows_per_budget budgeted_names
      numeral_2_eq_2)

lemma budgeted_rgs:
  "listed_rgs budgeted args_all \<lparr>subscriptionId = ''s1'', displayName = ''One'', tenantId = ''t''\<rparr>
     = [''rg1'', ''rg2'']"
  "listed_rgs budgeted args_all \<lparr>subscriptionId = ''s2'', displayName = ''Two'', tenantId = ''t''\<rparr>
     = []"
  by (simp_all add: listed_rgs_def list_resource_groups_def budgeted_def args_all_def)

subsection \<open>The claims on rows and runs\<close>

text \<open>
  C8. The forecast-trigger value of a row is \<open>True\<close> exactly when the row has a condition
  whose threshold type starts with \<open>forecast\<close> (in any case), the forecast percent of
  budget is present and \<open>float\<close> reads both it and the threshold, and the forecast percent
  is at least the threshold; it is \<open>False\<close> exactly when all of that holds but the
  forecast percent is below the threshold; in every other case (no condition, another
  threshold type, a missing forecast percent, a missing or non-numeric threshold) it is
  empty. With threshold type \<open>Forecasted\<close> and threshold 90, a forecast percent of 95.2
  gives \<open>True\<close> and an absent one gives the empty value. Every row \<open>emit_budget_rows\<close>
  appends carries this value for its condition and its forecast percent.
\<close>

theorem will_trigger_spec:
  "(will_trigger pf cond fp = ''True'' \<longleftrightarrow>
      (\<exists>c f t. cond = Some c \<and> startswith (lower (ThresholdType c)) ''forecast''
         \<and> fp \<noteq> PStr [] \<and> py_float pf fp = Inr f
         \<and> py_float pf (ThresholdPercent c) = Inr t \<and> t \<le> f))
   \<and> (will_trigger pf cond fp = ''False'' \<longleftrightarrow>
      (\<exists>c f t. cond = Some c \<and> startswith (lower (ThresholdType c)) ''forecast''
         \<and> fp \<noteq> PStr [] \<and> py_float pf fp = Inr f
         \<and> py_float pf (ThresholdPercent c) = Inr t \<and> f < t))
   \<and> will_trigger pf cond fp \<in> {''True'', ''False'', []}
   \<and> will_trigger pf (Some (c\<lparr>ThresholdType := ''Forecasted'', ThresholdPercent := PNum 90\<rparr>))
        (PNum 95.2) = ''True''
   \<and> will_trigger pf (Some (c\<lparr>ThresholdType := ''Forecasted'', ThresholdPercent := PNum 90\<rparr>))
        (PStr []) = []
   \<and> (emit_budget_rows pf rows a = Inr rows' \<longrightarrow>
        (\<forall>r \<in> set (drop (length rows) rows').
           ForecastConditionWillTrigger r =
             will_trigger pf (Condition r) (ForecastPercentOfBudget r)))"
proof (intro conjI impI ballI)
  show "will_trigger pf cond fp = ''True'' \<longleftrightarrow>
      (\<exists>c f t. cond = Some c \<and> startswith (lower (ThresholdType c)) ''forecast''
         \<and> fp \<noteq> PStr [] \<and> py_float pf fp = Inr f
         \<and> py_float pf (ThresholdPercent c) = Inr t \<and> t \<le> f)"
    by (rule will_trigger_True)
  show "will_trigger pf cond fp = ''False'' \<longleftrightarrow>
      (\<exists>c f t. cond = Some c \<and> startswith (lower (ThresholdType c)) ''forecast''
         \<and> fp \<noteq> PStr [] \<and> py_float pf fp = Inr f
         \<and> py_float pf (ThresholdPercent c) = Inr t \<and> f < t)"
    by (rule will_trigger_False)
  show "will_trigger pf cond fp \<in> {''True'', ''False'', []}"
    by (rule will_trigger_values)
  show "will_trigger pf (Some (c\<lparr>ThresholdType := ''Forecasted'', ThresholdPercent := PNum 90\<rparr>))
        (PNum 95.2) = ''True''"
    by (simp add: will_trigger_def forecasted)
  show "will_trigger pf (Some (c\<lparr>ThresholdType := ''Forecasted'', ThresholdPercent := PNum 90\<rparr>))
        (PStr []) = []"
    by (simp add: will_trigger_def forecasted)
next
  fix r
  assume "emit_budget_rows pf rows a = Inr rows'" "r \<in> set (drop (length rows) rows')"
  then show "ForecastConditionWillTrigger r =
             will_trigger pf (Condition r) (ForecastPercentOfBudget r)"
    by (rule emit_will_trigger)
qed

theorem will_trigger_spec_witness:
  "\<exists>r. emit_budget_rows no_float [] forecast_args = Inr [r]
       \<and> ForecastPercentOfBudget r = PNum 95.2
       \<and> ForecastConditionWillTrigger r = will_trigger no_float (Condition r) (PNum 95.2)
       \<and> ForecastConditionWillTrigger r = ''True''"
proof -
  let ?r = "budget_row forecast_args (PNum (py_round (budget_accuracy 1000 800) 4)) (PNum 80)
            (PNum 95.2) (PNum 1000) ''True''
            (Some \<lparr>ConditionKey = ''n1'', Enabled = True, ThresholdType = ''Forecasted'',
                   Operator = ''GreaterThan'', ThresholdPercent = PNum 90,
                   ContactEmails = ''a@example.org'', ContactGroups = [], ContactRoles = []\<rparr>)"
  have e: "emit_budget_rows no_float [] forecast_args = Inr [?r]"
    by (rule forecast_args_emit)
  have p: "ForecastPercentOfBudget ?r = PNum 95.2"
    by (simp add: budget_row_def)
  from will_trigger_spec [where pf = no_float and rows = "[]" and a = forecast_args
      and rows' = "[?r]"] e
  have "ForecastConditionWillTrigger ?r = will_trigger no_float (Condition ?r) (ForecastPercentOfBudget ?r)"
    by simp
  moreover have "ForecastConditionWillTrigger ?r = ''True''"
    by (simp add: budget_row_def)
  ultimately show ?thesis
    using e p by (intro exI [of _ ?r]) simp
qed

text \<open>
  C10. For a budget whose amount is exactly 0, every row \<open>emit_budget_rows\<close> appends
  shows the amount 0 and the last month's cost and the forecast total as given, and has
  an empty budget accuracy, an empty percent of budget for the last month, an empty
  forecast percent of budget and an empty forecast-trigger value. A last month's cost of
  exactly 0 gives an empty percent of budget for the last month, and a forecast total of
  exactly 0 gives an empty forecast percent of budget and an empty forecast-trigger
  value. Such a budget does get its rows whenever its notifications can be flattened.
\<close>

theorem falsy_fields_spec:
  "(emit_budget_rows pf rows a = Inr rows' \<longrightarrow>
      (\<forall>r \<in> set (drop (length rows) rows').
         (amount (the_budget a) = PNum 0 \<longrightarrow>
            BudgetAmount r = PNum 0 \<and> BudgetAccuracy r = PStr []
            \<and> PercentOfBudgetLastMonth r = PStr [] \<and> ForecastPercentOfBudget r = PStr []
            \<and> ForecastConditionWillTrigger r = [])
         \<and> (last_val a = Some 0 \<longrightarrow> PercentOfBudgetLastMonth r = PStr [])
         \<and> (forecast_total a = Some 0 \<longrightarrow>
              ForecastPercentOfBudget r = PStr [] \<and> ForecastConditionWillTrigger r = [])
         \<and> LastMonthCost r = cell (last_val a)
         \<and> CurrentMonthForecastTotal r = cell (forecast_total a)))
   \<and> (amount (the_budget a) = PNum 0
       \<and> flatten_notifications pf (notifications (the_budget a)) = Inr flat \<longrightarrow>
      (\<exists>new. emit_budget_rows pf rows a = Inr (rows @ new) \<and> length new = max 1 (length flat)))"
proof (intro conjI impI ballI)
  fix r
  assume e: "emit_budget_rows pf rows a = Inr rows'" and r: "r \<in> set (drop (length rows) rows')"
  show "LastMonthCost r = cell (last_val a)" "CurrentMonthForecastTotal r = cell (forecast_total a)"
    using emit_costs_shown [OF e r] by simp_all
  {
    assume z: "amount (the_budget a) = PNum 0"
    show "BudgetAmount r = PNum 0" "BudgetAccuracy r = PStr []"
      "PercentOfBudgetLastMonth r = PStr []" "ForecastPercentOfBudget r = PStr []"
      "ForecastConditionWillTrigger r = []"
      using emit_zero_amount [OF e r z] by simp_all
  }
  {
    assume z: "last_val a = Some 0"
    show "PercentOfBudgetLastMonth r = PStr []"
      using emit_zero_last [OF e r z] .
  }
  {
    assume z: "forecast_total a = Some 0"
    show "ForecastPercentOfBudget r = PStr []" "ForecastConditionWillTrigger r = []"
      using emit_zero_forecast [OF e r z] by simp_all
  }
next
  assume "amount (the_budget a) = PNum 0
       \<and> flatten_notifications pf (notifications (the_budget a)) = Inr flat"
  then show "\<exists>new. emit_budget_rows pf rows a = Inr (rows @ new) \<and> length new = max 1 (length flat)"
    using emit_zero_amount_returns [of a pf flat rows] by simp
qed

theorem falsy_fields_spec_witness:
  "\<exists>r. emit_budget_rows no_float []
          (forecast_args\<lparr>the_budget := forecast_budget\<lparr>amount := PNum 0\<rparr>\<rparr>) = Inr [r]
       \<and> BudgetAmount r = PNum 0 \<and> LastMonthCost r = PNum 800
       \<and> CurrentMonthForecastTotal r = PNum 952
       \<and> BudgetAccuracy r = PStr [] \<and> PercentOfBudgetLastMonth r = PStr []
       \<and> ForecastPercentOfBudget r = PStr [] \<and> ForecastConditionWillTrigger r = []"
proof -
  let ?a = "forecast_args\<lparr>the_budget := forecast_budget\<lparr>amount := PNum 0\<rparr>\<rparr>"
  from zero_amount_emit obtain r where e: "emit_budget_rows no_float [] ?a = Inr [r]" by blast
  from falsy_fields_spec [of no_float "[]" ?a "[r]"] e
  have "BudgetAmount r = PNum 0 \<and> LastMonthCost r = PNum 800
       \<and> CurrentMonthForecastTotal r = PNum 952
       \<and> BudgetAccuracy r = PStr [] \<and> PercentOfBudgetLastMonth r = PStr []
       \<and> ForecastPercentOfBudget r = PStr [] \<and> ForecastConditionWillTrigger r = []"
    by (simp add: forecast_args_def cell_def)
  with e show ?thesis by blast
qed

text \<open>
  C5. A call of \<open>emit_budget_rows\<close> that returns has appended, after the rows it was
  given, one row per flattened notification condition (the notifications that are
  mappings), in the flattened order, or one row without a condition when there is none:
  \<open>max 1 (number of flattened conditions)\<close> rows, all with the budget's name and scope;
  for a budget typed as the data model types it the call does return. A subscription
  with budgets gets the rows its budgets are due, budget after budget, and no synthetic
  row, and one without budgets gets one synthetic row and no budget row; the other sheets
  are left as they were. In the report of a run the sheet of a tier holds, scope after
  scope in the order of the discovery, exactly the rows the budgets of each scope are due,
  so none for a scope without budgets, and the no-budget sheet holds one row for each
  subscription without budgets and nothing else. All rows of a sheet are of its tier,
  budget-bearing in the three budget sheets and synthetic in the no-budget sheet; no scope
  has two synthetic rows; and no scope has both a synthetic and a budget-bearing row.
  When the discovery succeeds and all budgets are typed as the data model types them, the
  run does return its report.
\<close>

theorem row_count_spec:
  "(emit_budget_rows pf rows a = Inr rows' \<longrightarrow>
      (\<exists>flat. flatten_notifications pf (notifications (the_budget a)) = Inr flat
         \<and> length flat = length (filter (\<lambda>kv. snd kv \<noteq> None) (notifications (the_budget a)))
         \<and> length rows' = length rows + max 1 (length flat)
         \<and> take (length rows) rows' = rows
         \<and> map Condition (drop (length rows) rows') = (if flat = [] then [None] else map Some flat)
         \<and> (\<forall>r \<in> set (drop (length rows) rows').
               BudgetName r = budget_name (the_budget a) \<and> ScopeId r = scope_id a
               \<and> ScopeType r = scope_type a)))
   \<and> (typed_budget (the_budget a) \<longrightarrow>
        (\<exists>new. emit_budget_rows pf rows a = Inr (rows @ new)
           \<and> length new
               = max 1 (length (filter (\<lambda>kv. snd kv \<noteq> None) (notifications (the_budget a))))))
   \<and> (process_sub pf e today n rep s = Inr rep1 \<longrightarrow>
        (if budgets_or_empty e (''/subscriptions/'' @ subscriptionId s) \<noteq> []
         then sub_nobudget_rows rep1 = sub_nobudget_rows rep
              \<and> (\<exists>new. sub_rows rep1 = sub_rows rep @ new \<and> new \<noteq> []
                    \<and> (\<forall>r \<in> set new. ScopeType r = ''Subscription'' \<and> budget_bearing e r
                           \<and> ScopeId r = ''/subscriptions/'' @ subscriptionId s))
         else sub_rows rep1 = sub_rows rep
              \<and> (\<exists>r. sub_nobudget_rows rep1 = sub_nobudget_rows rep @ [r] \<and> synthetic e r
                     \<and> ScopeId r = ''/subscriptions/'' @ subscriptionId s))
        \<and> mg_rows rep1 = mg_rows rep \<and> rg_rows rep1 = rg_rows rep
        \<and> (\<exists>new. sub_rows rep1 = sub_rows rep @ new
              \<and> map row_key new = scope_keys e ''Subscription'' (sub_scope s)))
   \<and> (main pf e today ar = Inr rep2 \<longrightarrow>
        tiers_ok e rep2 \<and> distinct (map ScopeId (sub_nobudget_rows rep2))
        \<and> ScopeId ` set (sub_nobudget_rows rep2)
            \<inter> ScopeId ` set (mg_rows rep2 @ sub_rows rep2 @ rg_rows rep2) = {}
        \<and> (\<exists>mgs subs. discovered e ar = Inr (mgs, subs)
             \<and> map row_key (mg_rows rep2)
                 = (if ''mg'' \<in> include_scopes ar
                    then concat (map (\<lambda>g. scope_keys e ''MG'' (mg_scope g)) mgs) else [])
             \<and> map row_key (sub_rows rep2)
                 = (if ''sub'' \<in> include_scopes ar
                    then concat (map (\<lambda>s. scope_keys e ''Subscription'' (sub_scope s))
                                   (selected_subs ar subs))
                    else [])
             \<and> map ScopeId (sub_nobudget_rows rep2)
                 = (if ''sub'' \<in> include_scopes ar
                    then map sub_scope (filter (\<lambda>s. budgets_or_empty e (sub_scope s) = [])
                                          (selected_subs ar subs))
                    else [])
             \<and> map row_key (rg_rows rep2)
                 = (if ''rg'' \<in> include_scopes ar
                    then concat (map (\<lambda>s. concat (map (\<lambda>rg. scope_keys e ''ResourceGroup''
                                                             (rg_scope s rg))
                                                    (listed_rgs e ar s)))
                                   (selected_subs ar subs))
                    else [])))
   \<and> (discovered e ar = Inr d \<and> (\<forall>scope. list_all typed_budget (budgets_or_empty e scope)) \<longrightarrow>
        (\<exists>rep. main pf e today ar = Inr rep))"
proof (intro conjI impI)
  assume "emit_budget_rows pf rows a = Inr rows'"
  then show "\<exists>flat. flatten_notifications pf (notifications (the_budget a)) = Inr flat
         \<and> length flat = length (filter (\<lambda>kv. snd kv \<noteq> None) (notifications (the_budget a)))
         \<and> length rows' = length rows + max 1 (length flat)
         \<and> take (length rows) rows' = rows
         \<and> map Condition (drop (length rows) rows') = (if flat = [] then [None] else map Some flat)
         \<and> (\<forall>r \<in> set (drop (length rows) rows').
               BudgetName r = budget_name (the_budget a) \<and> ScopeId r = scope_id a
               \<and> ScopeType r = scope_type a)"
    by (rule emit_count)
next
  assume "typed_budget (the_budget a)"
  then show "\<exists>new. emit_budget_rows pf rows a = Inr (rows @ new)
           \<and> length new
               = max 1 (length (filter (\<lambda>kv. snd kv \<noteq> None) (notifications (the_budget a))))"
    by (rule emit_typed)
next
  assume ps: "process_sub pf e today n rep s = Inr rep1"
  from process_sub_rows [OF ps, THEN conjunct2, THEN conjunct2]
  show "if budgets_or_empty e (''/subscriptions/'' @ subscriptionId s) \<noteq> []
         then sub_nobudget_rows rep1 = sub_nobudget_rows rep
              \<and> (\<exists>new. sub_rows rep1 = sub_rows rep @ new \<and> new \<noteq> []
                    \<and> (\<forall>r \<in> set new. ScopeType r = ''Subscription'' \<and> budget_bearing e r
                           \<and> ScopeId r = ''/subscriptions/'' @ subscriptionId s))
         else sub_rows rep1 = sub_rows rep
              \<and> (\<exists>r. sub_nobudget_rows rep1 = sub_nobudget_rows rep @ [r] \<and> synthetic e r
                     \<and> ScopeId r = ''/subscriptions/'' @ subscriptionId s)" .
  from process_sub_rows [OF ps] show "mg_rows rep1 = mg_rows rep" and "rg_rows rep1 = rg_rows rep"
    by simp_all
  from ps show "\<exists>new. sub_rows rep1 = sub_rows rep @ new
              \<and> map row_key new = scope_keys e ''Subscription'' (sub_scope s)"
    by (rule process_sub_keys(1))
next
  assume m: "main pf e today ar = Inr rep2"
  from main_report [OF m] show t: "tiers_ok e rep2"
    and "distinct (map ScopeId (sub_nobudget_rows rep2))" by simp_all
  show "ScopeId ` set (sub_nobudget_rows rep2)
            \<inter> ScopeId ` set (mg_rows rep2 @ sub_rows rep2 @ rg_rows rep2) = {}"
  proof (rule ccontr)
    assume "ScopeId ` set (sub_nobudget_rows rep2)
            \<inter> ScopeId ` set (mg_rows rep2 @ sub_rows rep2 @ rg_rows rep2) \<noteq> {}"
    then obtain r1 r2 where r1: "r1 \<in> set (sub_nobudget_rows rep2)"
      and r2: "r2 \<in> set (mg_rows rep2 @ sub_rows rep2 @ rg_rows rep2)"
      and eq: "ScopeId r1 = ScopeId r2" by auto
    from t r1 have "budgets_or_empty e (ScopeId r1) = []"
      by (simp add: tiers_ok_def synthetic_def)
    moreover from t r2 have "budget_bearing e r2"
      by (auto simp: tiers_ok_def)
    ultimately show False
      using eq by (simp add: budget_bearing_def)
  qed
  from m show "\<exists>mgs subs. discovered e ar = Inr (mgs, subs)
             \<and> map row_key (mg_rows rep2)
                 = (if ''mg'' \<in> include_scopes ar
                    then concat (map (\<lambda>g. scope_keys e ''MG'' (mg_scope g)) mgs) else [])
             \<and> map row_key (sub_rows rep2)
                 = (if ''sub'' \<in> include_scopes ar
                    then concat (map (\<lambda>s. scope_keys e ''Subscription'' (sub_scope s))
                                   (selected_subs ar subs))
                    else [])
             \<and> map ScopeId (sub_nobudget_rows rep2)
                 = (if ''sub'' \<in> include_scopes ar
                    then map sub_scope (filter (\<lambda>s. budgets_or_empty e (sub_scope s) = [])
                                          (selected_subs ar subs))
                    else [])
             \<and> map row_key (rg_rows rep2)
                 = (if ''rg'' \<in> include_scopes ar
                    then concat (map (\<lambda>s. concat (map (\<lambda>rg. scope_keys e ''ResourceGroup''
                                                             (rg_scope s rg))
                                                    (listed_rgs e ar s)))
                                   (selected_subs ar subs))
                    else [])"
    by (rule main_keys)
next
  assume "discovered e ar = Inr d \<and> (\<forall>scope. list_all typed_budget (budgets_or_empty e scope))"
  then show "\<exists>rep. main pf e today ar = Inr rep"
    by (auto intro: main_total)
qed

theorem row_count_spec_witness:
  "(\<exists>r. emit_budget_rows no_float [] forecast_args = Inr [r] \<and> BudgetName r = ''b1'')
   \<and> typed_budget (the_budget forecast_args)
   \<and> (\<exists>r. process_sub no_float april_fails day_2024_06_15 3
             \<lparr>mg_rows = [], sub_rows = [], sub_nobudget_rows = [], rg_rows = []\<rparr>
             \<lparr>subscriptionId = ''s1'', displayName = ''One'', tenantId = ''t''\<rparr>
           = Inr \<lparr>mg_rows = [], sub_rows = [], sub_nobudget_rows = [r], rg_rows = []\<rparr>
         \<and> synthetic april_fails r)
   \<and> (\<exists>rep1. process_sub no_float budgeted day_2024_06_15 3
             \<lparr>mg_rows = [], sub_rows = [], sub_nobudget_rows = [], rg_rows = []\<rparr>
             \<lparr>subscriptionId = ''s1'', displayName = ''One'', tenantId = ''t''\<rparr> = Inr rep1
         \<and> map row_key (sub_rows rep1)
             = [(''Subscription'', ''/subscriptions/s1'', ''b1''),
                (''Subscription'', ''/subscriptions/s1'', ''b2''),
                (''Subscription'', ''/subscriptions/s1'', ''b2'')]
         \<and> sub_nobudget_rows rep1 = [])
   \<and> discovered budgeted args_all =
        Inr ([\<lparr>managementGroupId = ''root'', mg_displayName = ''root''\<rparr>],
             [\<lparr>subscriptionId = ''s1'', displayName = ''One'', tenantId = ''t''\<rparr>,
              \<lparr>subscriptionId = ''s2'', displayName = ''Two'', tenantId = ''t''\<rparr>])
   \<and> (\<forall>scope. list_all typed_budget (budgets_or_empty budgeted scope))
   \<and> (\<exists>rep. main no_float budgeted day_2024_06_15 args_all = Inr rep
         \<and> map row_key (mg_rows rep)
             = [(''MG'', ''/providers/Microsoft.Management/managementGroups/root'', ''b0'')]
         \<and> map row_key (sub_rows rep)
             = [(''Subscription'', ''/subscriptions/s1'', ''b1''),
                (''Subscription'', ''/subscriptions/s1'', ''b2''),
                (''Subscription'', ''/subscriptions/s1'', ''b2'')]
         \<and> map ScopeId (sub_nobudget_rows rep) = [''/subscriptions/s2'']
         \<and> map row_key (rg_rows rep)
             = [(''ResourceGroup'', ''/subscriptions/s1/resourceGroups/rg2'', ''b2''),
                (''ResourceGroup'', ''/subscriptions/s1/resourceGroups/rg2'', ''b2'')]
         \<and> tiers_ok budgeted rep
         \<and> ScopeId ` set (sub_nobudget_rows rep)
             \<inter> ScopeId ` set (mg_rows rep @ sub_rows rep @ rg_rows rep) = {})"
proof (intro conjI)
  let ?r = "budget_row forecast_args (PNum (py_round (budget_accuracy 1000 800) 4)) (PNum 80)
            (PNum 95.2) (PNum 1000) ''True''
            (Some \<lparr>ConditionKey = ''n1'', Enabled = True, ThresholdType = ''Forecasted'',
                   Operator = ''GreaterThan'', ThresholdPercent = PNum 90,
                   ContactEmails = ''a@example.org'', ContactGroups = [], ContactRoles = []\<rparr>)"
  let ?n = "nobudget_row (scope_args no_float april_fails day_2024_06_15 3 ''Subscription''
                             ''/subscriptions/s1'' ''One'' ''s1'' [])"
  let ?rep0 = "\<lparr>mg_rows = [], sub_rows = [], sub_nobudget_rows = [], rg_rows = []\<rparr>"
  let ?s1 = "\<lparr>subscriptionId = ''s1'', displayName = ''One'', tenantId = ''t''\<rparr>"
  let ?s2 = "\<lparr>subscriptionId = ''s2'', displayName = ''Two'', tenantId = ''t''\<rparr>"
  let ?g = "\<lparr>managementGroupId = ''root'', mg_displayName = ''root''\<rparr>"
  note emit = row_count_spec [where pf = no_float and rows = "[]" and a = forecast_args
      and rows' = "[?r]", THEN conjunct1, THEN mp, OF forecast_args_emit]
  from emit have "\<forall>r \<in> set (drop (length ([] :: row list)) [?r]).
          BudgetName r = budget_name (the_budget forecast_args) \<and> ScopeId r = scope_id forecast_args
          \<and> ScopeType r = scope_type forecast_args"
    by (elim exE conjE)
  then have "BudgetName ?r = budget_name (the_budget forecast_args)" by simp
  then show "\<exists>r. emit_budget_rows no_float [] forecast_args = Inr [r] \<and> BudgetName r = ''b1''"
    using forecast_args_emit by (simp add: forecast_args_def forecast_budget_def)
  show "typed_budget (the_budget forecast_args)"
    by (simp add: typed_budget_def typed_value_def forecast_args_def forecast_budget_def)
  from row_count_spec [where pf = no_float and e = april_fails and today = day_2024_06_15
      and n = 3 and rep = ?rep0 and s = ?s1
      and ?rep1.0 = "\<lparr>mg_rows = [], sub_rows = [], sub_nobudget_rows = [?n], rg_rows = []\<rparr>",
      THEN conjunct2, THEN conjunct2, THEN conjunct1, THEN mp, OF april_sub]
  have "synthetic april_fails ?n"
    by (simp add: april_no_budgets)
  with april_sub
  show "\<exists>r. process_sub no_float april_fails day_2024_06_15 3 ?rep0 ?s1
           = Inr \<lparr>mg_rows = [], sub_rows = [], sub_nobudget_rows = [r], rg_rows = []\<rparr>
         \<and> synthetic april_fails r"
    by blast
  from process_sub_total [of budgeted no_float day_2024_06_15 3 ?rep0 ?s1] budgeted_typed
  obtain rep1 where ps: "process_sub no_float budgeted day_2024_06_15 3 ?rep0 ?s1 = Inr rep1"
    by blast
  from row_count_spec [where pf = no_float and e = budgeted and today = day_2024_06_15
      and n = 3 and rep = ?rep0 and s = ?s1 and ?rep1.0 = rep1,
      THEN conjunct2, THEN conjunct2, THEN conjunct1, THEN mp, OF ps]
  have "map row_key (sub_rows rep1)
             = [(''Subscription'', ''/subscriptions/s1'', ''b1''),
                (''Subscription'', ''/subscriptions/s1'', ''b2''),
                (''Subscription'', ''/subscriptions/s1'', ''b2'')]
         \<and> sub_nobudget_rows rep1 = []"
    by (auto simp: budgeted_budgets sub_scope_def budgeted_scope_keys)
  with ps show "\<exists>rep1. process_sub no_float budgeted day_2024_06_15 3 ?rep0 ?s1 = Inr rep1
         \<and> map row_key (sub_rows rep1)
             = [(''Subscription'', ''/subscriptions/s1'', ''b1''),
                (''Subscription'', ''/subscriptions/s1'', ''b2''),
                (''Subscription'', ''/subscriptions/s1'', ''b2'')]
         \<and> sub_nobudget_rows rep1 = []"
    by (intro exI [where x = rep1]) simp
  show d: "discovered budgeted args_all = Inr ([?g], [?s1, ?s2])"
    by (rule budgeted_discovery)
  show ty: "\<forall>scope. list_all typed_budget (budgets_or_empty budgeted scope)"
    by (simp add: budgeted_typed)
  from row_count_spec [where pf = no_float and e = budgeted and today = day_2024_06_15
      and ar = args_all and d = "([?g], [?s1, ?s2])",
      THEN conjunct2, THEN conjunct2, THEN conjunct2, THEN conjunct2, THEN mp, OF conjI, OF d ty]
  obtain rep where m: "main no_float budgeted day_2024_06_15 args_all = Inr rep" by blast
  note run = row_count_spec [where pf = no_float and e = budgeted and today = day_2024_06_15
      and ar = args_all and ?rep2.0 = rep,
      THEN conjunct2, THEN conjunct2, THEN conjunct2, THEN conjunct1, THEN mp, OF m]
  from run d have keys: "map row_key (mg_rows rep)
             = [(''MG'', ''/providers/Microsoft.Management/managementGroups/root'', ''b0'')]
         \<and> map row_key (sub_rows rep)
             = [(''Subscription'', ''/subscriptions/s1'', ''b1''),
                (''Subscription'', ''/subscriptions/s1'', ''b2''),
                (''Subscription'', ''/subscriptions/s1'', ''b2'')]
         \<and> map ScopeId (sub_nobudget_rows rep) = [''/subscriptions/s2'']
         \<and> map row_key (rg_rows rep)
             = [(''ResourceGroup'', ''/subscriptions/s1/resourceGroups/rg2'', ''b2''),
                (''ResourceGroup'', ''/subscriptions/s1/resourceGroups/rg2'', ''b2'')]"
    by (auto simp: args_all_def [THEN arg_cong, of include_scopes] selected_subs_def
        mg_scope_def sub_scope_def rg_scope_def budgeted_scope_keys budgeted_budgets
        budgeted_rgs [unfolded args_all_def] args_all_def)
  from run have rest: "tiers_ok budgeted rep
         \<and> ScopeId ` set (sub_nobudget_rows rep)
             \<inter> ScopeId ` set (mg_rows rep @ sub_rows rep @ rg_rows rep) = {}"
    by blast
  from m keys rest
  show "\<exists>rep. main no_float budgeted day_2024_06_15 args_all = Inr rep
         \<and> map row_key (mg_rows rep)
             = [(''MG'', ''/providers/Microsoft.Management/managementGroups/root'', ''b0'')]
         \<and> map row_key (sub_rows rep)
             = [(''Subscription'', ''/subscriptions/s1'', ''b1''),
                (''Subscription'', ''/subscriptions/s1'', ''b2''),
                (''Subscription'', ''/subscriptions/s1'', ''b2'')]
         \<and> map ScopeId (sub_nobudget_rows rep) = [''/subscriptions/s2'']
         \<and> map row_key (rg_rows rep)
             = [(''ResourceGroup'', ''/subscriptions/s1/resourceGroups/rg2'', ''b2''),
                (''ResourceGroup'', ''/subscriptions/s1/resourceGroups/rg2'', ''b2'')]
         \<and> tiers_ok budgeted rep
         \<and> ScopeId ` set (sub_nobudget_rows rep)
             \<inter> ScopeId ` set (mg_rows rep @ sub_rows rep @ rg_rows rep) = {}"
    by (intro exI [where x = rep]) simp
qed
lemma process_rgs_failed_listing:
  assumes "page_failure (resource_groups e (subscriptionId s)) = Some x"
  shows "process_rgs pf e today ar rep s = Inr rep"
proof -
  from assms have "list_resource_groups e (subscriptionId s) = Inl x"
    by (simp add: list_resource_groups_def resource_group_pages_fail)
  then show ?thesis
    by (simp add: process_rgs_def)
qed

text \<open>
  C3, as the code has it. When the cost query of any one of the months fails,
  \<open>cost_query_last_months_scope\<close> raises, and what the caller keeps is a series of
  \<open>months\<close> entries that are all \<open>None\<close>: the months whose queries succeeded are dropped
  with the failed one, the last month's cost is absent and there are no earlier months.
  Only when every query succeeds does the caller get the costs, one for each month.
\<close>

theorem monthly_costs_spec:
  "(first_last_day_of_last_n_months today n = Inr periods \<and> p \<in> set periods
      \<and> time_period p = Inr tp \<and> cost_rows e scope tp = Inl x \<longrightarrow>
      (\<exists>y. cost_query_last_months_scope pf e today scope n = Inl y)
      \<and> monthly_or_none pf e today scope n = replicate (nat n) None
      \<and> last_month (monthly_or_none pf e today scope n) = None
      \<and> prev_two_months (monthly_or_none pf e today scope n) = [])
   \<and> (cost_query_last_months_scope pf e today scope n = Inr costs \<longrightarrow>
      monthly_or_none pf e today scope n = map Some costs \<and> length costs = nat n)"
proof (intro conjI impI)
  assume a: "first_last_day_of_last_n_months today n = Inr periods \<and> p \<in> set periods
      \<and> time_period p = Inr tp \<and> cost_rows e scope tp = Inl x"
  then obtain y where y: "cost_query_last_months_scope pf e today scope n = Inl y"
    using cost_query_one_fails [of today n periods p tp e scope x pf] by blast
  then show "\<exists>y. cost_query_last_months_scope pf e today scope n = Inl y" ..
  show "monthly_or_none pf e today scope n = replicate (nat n) None"
    "last_month (monthly_or_none pf e today scope n) = None"
    "prev_two_months (monthly_or_none pf e today scope n) = []"
    using monthly_none [OF y] by simp_all
next
  assume "cost_query_last_months_scope pf e today scope n = Inr costs"
  then show "monthly_or_none pf e today scope n = map Some costs" "length costs = nat n"
    by (rule monthly_some)+
qed

theorem monthly_costs_spec_witness:
  "first_last_day_of_last_n_months day_2024_06_15 3 =
     Inr [(\<lparr>year = 2024, month = 5, day = 1\<rparr>, \<lparr>year = 2024, month = 5, day = 31\<rparr>),
          (\<lparr>year = 2024, month = 4, day = 1\<rparr>, \<lparr>year = 2024, month = 4, day = 30\<rparr>),
          (\<lparr>year = 2024, month = 3, day = 1\<rparr>, \<lparr>year = 2024, month = 3, day = 31\<rparr>)]
   \<and> time_period (\<lparr>year = 2024, month = 4, day = 1\<rparr>, \<lparr>year = 2024, month = 4, day = 30\<rparr>)
       = Inr (\<lparr>year = 2024, month = 4, day = 1\<rparr>, \<lparr>year = 2024, month = 5, day = 1\<rparr>)
   \<and> cost_rows april_fails ''/subscriptions/s1''
        (\<lparr>year = 2024, month = 4, day = 1\<rparr>, \<lparr>year = 2024, month = 5, day = 1\<rparr>)
       = Inl (HTTPError 404)
   \<and> monthly_or_none no_float april_fails day_2024_06_15 ''/subscriptions/s1'' 3
       = replicate (nat 3) None
   \<and> monthly_or_none no_float
        (april_fails\<lparr>cost_rows := (\<lambda>scope tp. Inr [[PNum 100], [PStr ''x''], [PNone]])\<rparr>)
        day_2024_06_15 ''/subscriptions/s1'' 3
       = map Some [100, 100, 100]"
proof -
  have tp: "time_period (\<lparr>year = 2024, month = 4, day = 1\<rparr>, \<lparr>year = 2024, month = 4, day = 30\<rparr>)
       = Inr (\<lparr>year = 2024, month = 4, day = 1\<rparr>, \<lparr>year = 2024, month = 5, day = 1\<rparr>)"
    by (simp add: time_period_def add_day_def days_in_month_def)
  have cr: "cost_rows april_fails ''/subscriptions/s1''
        (\<lparr>year = 2024, month = 4, day = 1\<rparr>, \<lparr>year = 2024, month = 5, day = 1\<rparr>)
       = Inl (HTTPError 404)"
    by (simp add: april_fails_def)
  show ?thesis
    using monthly_costs_spec [where today = day_2024_06_15 and n = 3
        and periods =
          "[(\<lparr>year = 2024, month = 5, day = 1\<rparr>, \<lparr>year = 2024, month = 5, day = 31\<rparr>),
            (\<lparr>year = 2024, month = 4, day = 1\<rparr>, \<lparr>year = 2024, month = 4, day = 30\<rparr>),
            (\<lparr>year = 2024, month = 3, day = 1\<rparr>, \<lparr>year = 2024, month = 3, day = 31\<rparr>)]"
        and p = "(\<lparr>year = 2024, month = 4, day = 1\<rparr>, \<lparr>year = 2024, month = 4, day = 30\<rparr>)"
        and tp = "(\<lparr>year = 2024, month = 4, day = 1\<rparr>, \<lparr>year = 2024, month = 5, day = 1\<rparr>)"
        and e = april_fails and scope = "''/subscriptions/s1''" and x = "HTTPError 404"
        and pf = no_float]
      monthly_costs_spec [where today = day_2024_06_15 and n = 3
        and e = "april_fails\<lparr>cost_rows := (\<lambda>scope tp. Inr [[PNum 100], [PStr ''x''], [PNone]])\<rparr>"
        and scope = "''/subscriptions/s1''" and pf = no_float and costs = "[100, 100, 100]"]
      june_windows tp cr all_months
    by simp
qed

text \<open>
  The claim as stated fails when one month of three fails: the queries for May and
  March 2024 succeed, that for April fails, and the series the caller keeps has no cost
  for any of the three months.
\<close>

theorem monthly_costs_counterexample:
  "monthly_or_none no_float april_fails day_2024_06_15 ''/subscriptions/s1'' 3 = [None, None, None]
   \<and> cost_rows april_fails ''/subscriptions/s1''
        (\<lparr>year = 2024, month = 5, day = 1\<rparr>, \<lparr>year = 2024, month = 6, day = 1\<rparr>)
       = Inr [[PNum 100]]
   \<and> cost_rows april_fails ''/subscriptions/s1''
        (\<lparr>year = 2024, month = 3, day = 1\<rparr>, \<lparr>year = 2024, month = 4, day = 1\<rparr>)
       = Inr [[PNum 100]]"
  by (simp add: april_monthly) (simp add: april_fails_def)

text \<open>
  C4, as the code has it. A failure of any page of the management group descendants
  listing leaves \<open>main\<close> as an exception: the run is aborted. A failure of the resource
  group listing of a subscription is caught: the resource group block of that
  subscription leaves the report as it was, and the whole run goes as if the listing had
  been empty.
\<close>

theorem failure_policy_spec:
  "((''mg'' \<in> include_scopes ar \<or> ''sub'' \<in> include_scopes ar \<or> ''rg'' \<in> include_scopes ar)
      \<and> page_failure (descendants e (management_group_id ar)) = Some x \<longrightarrow>
      main pf e today ar = Inl x)
   \<and> (page_failure (resource_groups e (subscriptionId s)) = Some x \<longrightarrow>
      process_rgs pf e today ar rep s = Inr rep)
   \<and> (page_failure p = Some x \<longrightarrow>
      main pf (e\<lparr>resource_groups := (resource_groups e)(sid := p)\<rparr>) today ar
        = main pf (e\<lparr>resource_groups := (resource_groups e)(sid := LastPage [])\<rparr>) today ar)"
proof (intro conjI impI)
  assume "(''mg'' \<in> include_scopes ar \<or> ''sub'' \<in> include_scopes ar \<or> ''rg'' \<in> include_scopes ar)
      \<and> page_failure (descendants e (management_group_id ar)) = Some x"
  then show "main pf e today ar = Inl x"
    using discovery_failure_aborts [of ar e x pf today] by simp
next
  assume "page_failure (resource_groups e (subscriptionId s)) = Some x"
  then show "process_rgs pf e today ar rep s = Inr rep"
    by (rule process_rgs_failed_listing)
next
  assume "page_failure p = Some x"
  then show "main pf (e\<lparr>resource_groups := (resource_groups e)(sid := p)\<rparr>) today ar
        = main pf (e\<lparr>resource_groups := (resource_groups e)(sid := LastPage [])\<rparr>) today ar"
    by (rule failed_listing_is_empty)
qed

theorem failure_policy_spec_witness:
  "main no_float discovery_fails day_2024_06_15 args_sub = Inl (HTTPError 500)
   \<and> process_rgs no_float rg_listing_fails day_2024_06_15 args_rg
        \<lparr>mg_rows = [], sub_rows = [], sub_nobudget_rows = [], rg_rows = []\<rparr>
        \<lparr>subscriptionId = ''s1'', displayName = ''One'', tenantId = ''t''\<rparr>
       = Inr \<lparr>mg_rows = [], sub_rows = [], sub_nobudget_rows = [], rg_rows = []\<rparr>
   \<and> main no_float
        (april_fails\<lparr>resource_groups :=
           (resource_groups april_fails)(''s1'' := PageFail (HTTPError 403))\<rparr>)
        day_2024_06_15 args_rg
       = main no_float
           (april_fails\<lparr>resource_groups := (resource_groups april_fails)(''s1'' := LastPage [])\<rparr>)
           day_2024_06_15 args_rg"
  using failure_policy_spec [where ar = args_sub and e = discovery_fails and x = "HTTPError 500"
      and pf = no_float and today = day_2024_06_15 and p = "PageFail (HTTPError 500)"]
    failure_policy_spec [where ar = args_rg and e = rg_listing_fails and x = "HTTPError 403"
      and s = "\<lparr>subscriptionId = ''s1'', displayName = ''One'', tenantId = ''t''\<rparr>"
      and pf = no_float and today = day_2024_06_15
      and rep = "\<lparr>mg_rows = [], sub_rows = [], sub_nobudget_rows = [], rg_rows = []\<rparr>"
      and p = "PageFail (HTTPError 403)"]
    failure_policy_spec [where ar = args_rg and e = april_fails and x = "HTTPError 403"
      and pf = no_float and today = day_2024_06_15
      and p = "PageFail (HTTPError 403)" and sid = "''s1''"]
  by (simp add: args_sub_def discovery_fails_def rg_listing_fails_def)

text \<open>
  The claim as stated fails for the resource group listing: with a listing that fails
  with status 403 the run completes, with an empty report of the resource group tier.
\<close>

theorem failure_policy_counterexample:
  "list_resource_groups rg_listing_fails ''s1'' = Inl (HTTPError 403)
   \<and> main no_float rg_listing_fails day_2024_06_15 args_rg
       = Inr \<lparr>mg_rows = [], sub_rows = [], sub_nobudget_rows = [], rg_rows = []\<rparr>"
  by (simp add: rg_listing_run) (simp add: list_resource_groups_def rg_listing_fails_def)


end
